theory Spec2Isabelle
  imports Complex_Main
begin

section \<open>The watcher: data model\<close>

text \<open>
  The program is the motion watcher whose state machine is written as three
  kernels (\<open>Watching\<close>, \<open>MotionDetected\<close>, \<open>Recording\<close>) that return the next kernel,
  driven by the loop of \<open>main\<close>.

  Times are \<open>time.Time\<close> values, modelled as nanoseconds since the zero \<open>Time\<close>;
  a \<open>time.Duration\<close> is a number of nanoseconds.
\<close>

type_synonym time = int

definition Millisecond :: int where
  "Millisecond = 1000000"

definition Second :: int where
  "Second = 1000000000"

definition FilenameLayout :: string where
  "FilenameLayout = ''2006-01-02-150405-MST''"

definition UnixDate :: string where
  "UnixDate = ''Mon Jan _2 15:04:05 MST 2006''"

definition MinimumArea :: real where
  "MinimumArea = 3000"

definition DefaultWatchCycle :: int where
  "DefaultWatchCycle = 200 * Millisecond"

definition DefaultRecordingThreshold :: int where
  "DefaultRecordingThreshold = 2 * Second"

definition DefaultRecordingDropoff :: int where
  "DefaultRecordingDropoff = 2 * Second"

datatype color = ColorRed | ColorGreen | ColorBlue

type_synonym rect = "int \<times> int \<times> int \<times> int"

text \<open>
  A contour as \<open>gocv.FindContours\<close> returns it, with what \<open>gocv.ContourArea\<close> and
  \<open>gocv.BoundingRect\<close> compute for it.
\<close>

record shape =
  area :: real
  boundingRect :: rect

text \<open>What the drawing calls of gocv put on an image, in the order of the calls.\<close>

datatype drawing =
    Rectangle rect color int
  | DrawContours "shape list" nat color int
  | Text string "int \<times> int" color int

text \<open>
  A \<open>gocv.Mat\<close>: empty, or the pixels of a capture (an opaque number), its
  dimensions, and what has been drawn on it since.
\<close>

datatype mat = EmptyMat | Image nat int int "drawing list"

fun Empty :: "mat \<Rightarrow> bool" where
  "Empty EmptyMat = True"
| "Empty (Image p c r ds) = False"

fun Cols :: "mat \<Rightarrow> int" where
  "Cols EmptyMat = 0"
| "Cols (Image p c r ds) = c"

fun Rows :: "mat \<Rightarrow> int" where
  "Rows EmptyMat = 0"
| "Rows (Image p c r ds) = r"

fun draw :: "drawing \<Rightarrow> mat \<Rightarrow> mat" where
  "draw d EmptyMat = EmptyMat"
| "draw d (Image p c r ds) = Image p c r (ds @ [d])"

text \<open>
  What the environment answers during one cycle, that is from one call of
  \<open>w.src.Read\<close> to the next:
  \<^item> \<open>ok\<close> and \<open>frame\<close>: the result of \<open>w.src.Read(&w.img)\<close> and what it left in the Mat;
  \<^item> \<open>delta\<close>, \<open>thresh\<close>, \<open>dilated\<close>, \<open>contours\<close>: what the calls of gocv in
    \<open>w.FindContours()\<close> produce for that frame: the mask that \<open>mog2.Apply\<close> writes, the
    image that \<open>gocv.Threshold\<close> writes, the image that \<open>gocv.Dilate\<close> writes, and the
    contours that \<open>gocv.FindContours\<close> returns;
  \<^item> \<open>clock\<close>: the reading of \<open>time.Now()\<close> during the cycle (the clock is read
    once per cycle: time passes while the loop waits in \<open>Read\<close> or for the tick);
  \<^item> \<open>sinkOpens\<close>, \<open>sinkWrites\<close>: whether \<open>gocv.VideoWriterFile\<close> and \<open>file.Write\<close>
    succeed when called in this cycle.
\<close>

record input =
  ok :: bool
  frame :: mat
  delta :: mat
  thresh :: mat
  dilated :: mat
  contours :: "shape list"
  clock :: time
  sinkOpens :: bool
  sinkWrites :: bool

datatype error = ErrReadDevice | ErrVideoWriterFile | ErrWrite

text \<open>The calls the process makes on the outside world, in order.\<close>

datatype effect =
    UpdateJPEG mat
  | TickWait int
  | LogPrint string
  | VideoWriterFile string string int int int
  | FileWrite string mat
  | FileClose string
  | LogFatal error

text \<open>
  The functions of Go's standard library that turn a time or a duration into text:
  \<open>Format layout t\<close> is \<open>t.Format(layout)\<close>, and \<open>RoundString d\<close> is the text of
  \<open>d.Round(time.Second)\<close>.
\<close>

record lib =
  Format :: "string \<Rightarrow> time \<Rightarrow> string"
  RoundString :: "int \<Rightarrow> string"

text \<open>
  The \<open>Watcher\<close> struct. \<open>src\<close> is the environment (the inputs), \<open>dst\<close> and the other
  outputs are collected in \<open>out\<close>. The state of the background subtractor \<open>mog2\<close> is
  the sequence of the frames it has been applied to.
\<close>

record watcher =
  img :: mat
  imgDelta :: mat
  imgThresh :: mat
  imgDebug :: mat
  mog2 :: "mat list"
  motionDetectedAt :: time
  out :: "effect list"

definition NewWatcher :: watcher where
  "NewWatcher =
     \<lparr>img = EmptyMat, imgDelta = EmptyMat, imgThresh = EmptyMat, imgDebug = EmptyMat,
      mog2 = [], motionDetectedAt = 0, out = []\<rparr>"

definition emit :: "effect \<Rightarrow> watcher \<Rightarrow> watcher" where
  "emit x w = w\<lparr>out := out w @ [x]\<rparr>"

section \<open>The watcher: operations\<close>

text \<open>
  One pass through the body of the loop of \<open>Read\<close>, on what \<open>w.src.Read\<close> delivers:
  the loop returns an error, goes round again, or returns nil.
\<close>

datatype readResult = ReadError error | ReadAgain | ReadNil

definition Read :: "input \<Rightarrow> watcher \<Rightarrow> readResult \<times> watcher" where
  "Read e w =
     (let w1 = w\<lparr>img := frame e\<rparr> in
      if \<not> ok e then (ReadError ErrReadDevice, w1)
      else if Empty (img w1) then (ReadAgain, w1)
      else (ReadNil, w1\<lparr>imgDebug := img w1\<rparr>))"

text \<open>
  \<open>FindContours\<close>: the background subtractor is applied to the frame and writes
  \<open>imgDelta\<close>, the threshold and then the dilation write \<open>imgThresh\<close>, and the
  contours of \<open>imgThresh\<close> are returned.
\<close>

definition FindContours :: "input \<Rightarrow> watcher \<Rightarrow> shape list \<times> watcher" where
  "FindContours e w =
     (let w1 = w\<lparr>mog2 := mog2 w @ [img w], imgDelta := delta e\<rparr>;
          w2 = w1\<lparr>imgThresh := thresh e\<rparr>;
          w3 = w2\<lparr>imgThresh := dilated e\<rparr>
      in (contours e, w3))"

text \<open>The loop of \<open>FindMotion\<close> over the shapes, with the index \<open>i\<close> of the range.\<close>

fun FindMotion_range :: "shape list \<Rightarrow> nat \<Rightarrow> shape list \<Rightarrow> bool \<times> mat \<Rightarrow> bool \<times> mat" where
  "FindMotion_range shapes i [] (motionDetected, dbg) = (motionDetected, dbg)"
| "FindMotion_range shapes i (s # rest) (motionDetected, dbg) =
     (if area s < MinimumArea then FindMotion_range shapes (Suc i) rest (motionDetected, dbg)
      else FindMotion_range shapes (Suc i) rest
             (True, draw (DrawContours shapes i ColorRed 2)
                      (draw (Rectangle (boundingRect s) ColorBlue 2) dbg)))"

definition FindMotion :: "input \<Rightarrow> watcher \<Rightarrow> bool \<times> watcher" where
  "FindMotion e w =
     (let (shapes, w0) = FindContours e w;
          (motionDetected, dbg) = FindMotion_range shapes 0 shapes (False, imgDebug w0);
          w1 = w0\<lparr>imgDebug := dbg\<rparr>;
          w2 = (if motionDetected then w1\<lparr>motionDetectedAt := clock e\<rparr> else w1)
      in (motionDetected, w2))"

definition PutText :: "mat \<Rightarrow> string \<Rightarrow> string \<Rightarrow> color \<Rightarrow> mat" where
  "PutText m unixDate msg msgColor =
     draw (Text msg (10, 50) msgColor 2) (draw (Text unixDate (10, 20) msgColor 2) m)"

definition UpdateDebugStream :: "watcher \<Rightarrow> watcher" where
  "UpdateDebugStream w = emit (UpdateJPEG (imgDebug w)) w"

text \<open>
  A \<open>WatcherKernel\<close> is one of four methods. A call of a kernel runs until the
  kernel returns (the next kernel, or nil, and an error, or nil) or until it calls
  \<open>w.src.Read\<close>, where it waits for the next input; \<open>place\<close> says in which loop it
  waits, with the local variables of that loop.
\<close>

datatype kernel = KWatching | KBackToWatching | KMotionDetected | KRecording

datatype place =
    InWatching
  | InMotionDetected time
  | InRecording time string

datatype ret = Returned "kernel option" "error option" | Waiting place

text \<open>\<open>Watching\<close>: up to the first \<open>Read\<close>, and one pass of its loop from \<open>Read\<close> on.\<close>

definition Watching_enter :: "watcher \<Rightarrow> ret \<times> watcher" where
  "Watching_enter w = (Waiting InWatching, w)"

definition Watching_loop :: "lib \<Rightarrow> input \<Rightarrow> watcher \<Rightarrow> ret \<times> watcher" where
  "Watching_loop L e w =
     (case Read e w of
        (ReadError err, w1) \<Rightarrow> (Returned None (Some err), w1)
      | (ReadAgain, w1) \<Rightarrow> (Waiting InWatching, w1)
      | (ReadNil, w1) \<Rightarrow>
          (let (motionDetected, w2) = FindMotion e w1 in
           if motionDetected then (Returned (Some KMotionDetected) None, w2)
           else
             (let w3 = w2\<lparr>imgDebug := PutText (imgDebug w2) (Format L UnixDate (clock e))
                                        ''Watching'' ColorGreen\<rparr>;
                  w4 = UpdateDebugStream w3;
                  w5 = emit (TickWait DefaultWatchCycle) w4
              in (Waiting InWatching, w5))))"

definition BackToWatching :: "lib \<Rightarrow> input \<Rightarrow> watcher \<Rightarrow> ret \<times> watcher" where
  "BackToWatching L e w =
     (let w1 = w\<lparr>imgDebug := PutText (imgDebug w) (Format L UnixDate (clock e))
                               ''Watching'' ColorGreen\<rparr>;
          w2 = UpdateDebugStream w1
      in (Returned (Some KWatching) None, w2))"

text \<open>
  \<open>MotionDetected\<close>: the top of its loop (annotate, publish, then \<open>Read\<close>), reached
  on entry with \<open>motionBegan := time.Now()\<close> and again by \<open>continue\<close>.
\<close>

definition MotionDetected_top :: "lib \<Rightarrow> input \<Rightarrow> time \<Rightarrow> watcher \<Rightarrow> ret \<times> watcher" where
  "MotionDetected_top L e motionBegan w =
     (let w1 = w\<lparr>imgDebug := PutText (imgDebug w) (Format L UnixDate (clock e))
                               ''Motion Detected'' ColorGreen\<rparr>;
          w2 = UpdateDebugStream w1
      in (Waiting (InMotionDetected motionBegan), w2))"

definition MotionDetected_enter :: "lib \<Rightarrow> input \<Rightarrow> watcher \<Rightarrow> ret \<times> watcher" where
  "MotionDetected_enter L e w = MotionDetected_top L e (clock e) w"

definition MotionDetected_loop :: "lib \<Rightarrow> time \<Rightarrow> input \<Rightarrow> watcher \<Rightarrow> ret \<times> watcher" where
  "MotionDetected_loop L motionBegan e w =
     (case Read e w of
        (ReadError err, w1) \<Rightarrow> (Returned None (Some err), w1)
      | (ReadAgain, w1) \<Rightarrow> (Waiting (InMotionDetected motionBegan), w1)
      | (ReadNil, w1) \<Rightarrow>
          (let (motionDetected, w2) = FindMotion e w1 in
           if \<not> motionDetected then (Returned (Some KBackToWatching) None, w2)
           else if motionDetected \<and> clock e - motionBegan > DefaultRecordingThreshold
             then (Returned (Some KRecording) None, w2)
           else MotionDetected_top L e motionBegan w2))"

text \<open>
  \<open>Recording\<close>. The deferred function starts a goroutine that closes the file: it
  runs at every return after the file was opened.
\<close>

definition Recording_enter :: "lib \<Rightarrow> input \<Rightarrow> watcher \<Rightarrow> ret \<times> watcher" where
  "Recording_enter L e w =
     (let recordingBegan = clock e;
          w1 = emit (LogPrint (''Recording Began: '' @ Format L UnixDate recordingBegan)) w;
          filename = Format L FilenameLayout recordingBegan @ ''.mp4'';
          w2 = emit (VideoWriterFile filename ''avc1'' 25 (Cols (img w1)) (Rows (img w1))) w1
      in if \<not> sinkOpens e then (Returned (Some KBackToWatching) (Some ErrVideoWriterFile), w2)
         else
           (let now = Format L UnixDate (clock e);
                w3 = w2\<lparr>img := PutText (img w2) now ''Recording'' ColorRed\<rparr>;
                w4 = w3\<lparr>imgDebug := PutText (imgDebug w3) now ''Recording'' ColorRed\<rparr>;
                w5 = emit (FileWrite filename (img w4)) w4
            in if \<not> sinkWrites e
               then (Returned (Some KBackToWatching) (Some ErrWrite), emit (FileClose filename) w5)
               else (Waiting (InRecording recordingBegan filename), UpdateDebugStream w5)))"

definition Recording_loop :: "lib \<Rightarrow> time \<Rightarrow> string \<Rightarrow> input \<Rightarrow> watcher \<Rightarrow> ret \<times> watcher" where
  "Recording_loop L recordingBegan filename e w =
     (case Read e w of
        (ReadError err, w1) \<Rightarrow> (Returned None (Some err), emit (FileClose filename) w1)
      | (ReadAgain, w1) \<Rightarrow> (Waiting (InRecording recordingBegan filename), w1)
      | (ReadNil, w1) \<Rightarrow>
          (let (motionDetected, w2) = FindMotion e w1 in
           if \<not> motionDetected \<and> clock e - motionDetectedAt w2 > DefaultRecordingDropoff
           then (Returned (Some KBackToWatching) None, emit (FileClose filename) w2)
           else
             (let now = clock e;
                  nowStr = Format L UnixDate now @ '' '' @ RoundString L (now - recordingBegan);
                  msgColor = (if \<not> motionDetected then ColorGreen else ColorRed);
                  w3 = w2\<lparr>img := PutText (img w2) nowStr ''Recording'' msgColor\<rparr>;
                  w4 = w3\<lparr>imgDebug := PutText (imgDebug w3) nowStr ''Recording'' msgColor\<rparr>;
                  w5 = emit (FileWrite filename (img w4)) w4
              in if \<not> sinkWrites e
                 then (Returned (Some KBackToWatching) (Some ErrWrite),
                       emit (FileClose filename) w5)
                 else (Waiting (InRecording recordingBegan filename), UpdateDebugStream w5))))"

text \<open>Calling a kernel, and going on in the loop where a kernel waits.\<close>

fun call :: "lib \<Rightarrow> input \<Rightarrow> kernel \<Rightarrow> watcher \<Rightarrow> ret \<times> watcher" where
  "call L e KWatching w = Watching_enter w"
| "call L e KBackToWatching w = BackToWatching L e w"
| "call L e KMotionDetected w = MotionDetected_enter L e w"
| "call L e KRecording w = Recording_enter L e w"

fun resume :: "lib \<Rightarrow> place \<Rightarrow> input \<Rightarrow> watcher \<Rightarrow> ret \<times> watcher" where
  "resume L InWatching e w = Watching_loop L e w"
| "resume L (InMotionDetected motionBegan) e w = MotionDetected_loop L motionBegan e w"
| "resume L (InRecording recordingBegan filename) e w =
     Recording_loop L recordingBegan filename e w"

text \<open>
  The loop of \<open>main\<close>: \<open>log.Fatal\<close> on any error a kernel returns, otherwise the
  next kernel is called, until a kernel waits for input or the kernel is nil.
\<close>

datatype status = Running place | Fatal error | Finished

fun rank :: "ret \<Rightarrow> nat" where
  "rank (Waiting p) = 0"
| "rank (Returned k (Some err)) = 0"
| "rank (Returned None None) = 0"
| "rank (Returned (Some KBackToWatching) None) = 2"
| "rank (Returned (Some k) None) = 1"

function main_loop :: "lib \<Rightarrow> input \<Rightarrow> ret \<times> watcher \<Rightarrow> status \<times> watcher" where
  "main_loop L e (Waiting p, w) = (Running p, w)"
| "main_loop L e (Returned k (Some err), w) = (Fatal err, emit (LogFatal err) w)"
| "main_loop L e (Returned None None, w) = (Finished, w)"
| "main_loop L e (Returned (Some k) None, w) = main_loop L e (call L e k w)"
  by pat_completeness auto
termination
proof (relation "measure (\<lambda>(L, e, r, w). rank r)")
  show "wf (measure (\<lambda>(L, e, r, w). rank r))" by simp
next
  fix L e k w
  have "rank (fst (call L e k w)) < rank (Returned (Some k) None)"
    by (cases k)
       (simp_all add: Watching_enter_def BackToWatching_def MotionDetected_enter_def
          MotionDetected_top_def Recording_enter_def Let_def)
  then show "((L, e, call L e k w), (L, e, Returned (Some k) None, w))
               \<in> measure (\<lambda>(L, e, r, w). rank r)"
    by (cases "call L e k w") simp
qed

text \<open>
  One step of the process: from the call of \<open>w.src.Read\<close> where it waits, with the
  input \<open>e\<close>, to the next such call or to the end of the process.
\<close>

fun step :: "lib \<Rightarrow> status \<times> watcher \<Rightarrow> input \<Rightarrow> status \<times> watcher" where
  "step L (Running p, w) e = main_loop L e (resume L p e w)"
| "step L (Fatal err, w) e = (Fatal err, w)"
| "step L (Finished, w) e = (Finished, w)"

text \<open>\<open>main\<close> starts with \<open>kernel := watcher.Watching\<close> on a new watcher.\<close>

definition start :: "status \<times> watcher" where
  "start = (Running InWatching, NewWatcher)"

definition run :: "lib \<Rightarrow> input list \<Rightarrow> status \<times> watcher" where
  "run L es = foldl (step L) start es"

section \<open>Notions of the specification\<close>

text \<open>
  The motion signal of a cycle: motion is present when at least one candidate region
  has an area of at least \<open>MinimumArea\<close>.
\<close>

definition present :: "input \<Rightarrow> bool" where
  "present e = (\<exists>s \<in> set (contours e). MinimumArea \<le> area s)"

text \<open>The same cycle without the regions smaller than \<open>MinimumArea\<close>.\<close>

definition dropSmall :: "input \<Rightarrow> input" where
  "dropSmall e = e\<lparr>contours := filter (\<lambda>s. \<not> area s < MinimumArea) (contours e)\<rparr>"

fun running :: "status \<Rightarrow> bool" where
  "running (Running p) = True"
| "running (Fatal err) = False"
| "running Finished = False"

text \<open>
  Concrete values for the examples: a library whose \<open>Format\<close> returns the layout
  itself, and the cycle of a 960x720 capture with one contour of area \<open>a\<close>, read
  \<open>secs\<close> seconds after the zero time, with a working sink.
\<close>

definition lib0 :: lib where
  "lib0 = \<lparr>Format = (\<lambda>layout t. layout), RoundString = (\<lambda>d. ''0s'')\<rparr>"

definition capture :: "real \<Rightarrow> int \<Rightarrow> input" where
  "capture a secs =
     \<lparr>ok = True, frame = Image 1 960 720 [],
      delta = Image 2 960 720 [], thresh = Image 3 960 720 [], dilated = Image 4 960 720 [],
      contours = [\<lparr>area = a, boundingRect = (0, 0, 100, 100)\<rparr>],
      clock = secs * Second, sinkOpens = True, sinkWrites = True\<rparr>"

text \<open>
  A second library for the examples, whose \<open>Format\<close> depends on the time: it appends
  the number of seconds since the zero time to the layout.
\<close>

definition digit :: "nat \<Rightarrow> char" where
  "digit d = ''0123456789'' ! d"

fun decimal :: "nat \<Rightarrow> string" where
  "decimal n = (if n < 10 then [digit n] else decimal (n div 10) @ [digit (n mod 10)])"

definition lib1 :: lib where
  "lib1 = \<lparr>Format = (\<lambda>layout t. layout @ ''@'' @ decimal (nat (t div Second))),
           RoundString = (\<lambda>d. decimal (nat (d div Second)) @ ''s'')\<rparr>"

text \<open>
  Two more cycles for the examples: a capture with a small and a large contour, and a
  read that succeeds with an empty frame.
\<close>

definition twoShapes :: input where
  "twoShapes = (capture 10 5)\<lparr>contours :=
     [\<lparr>area = 10, boundingRect = (0, 0, 3, 3)\<rparr>, \<lparr>area = 4000, boundingRect = (5, 5, 80, 60)\<rparr>]\<rparr>"

definition emptyRead :: input where
  "emptyRead = (capture 0 1)\<lparr>frame := EmptyMat\<rparr>"

text \<open>
  The debug image of a cycle after \<open>FindMotion\<close>: the capture with the rectangle and
  the contour of every region that is not smaller than \<open>MinimumArea\<close>.
\<close>

definition debugImage :: "input \<Rightarrow> mat" where
  "debugImage e = snd (FindMotion_range (contours e) 0 (contours e) (False, frame e))"

text \<open>What one step adds to the outputs.\<close>

definition emitted :: "lib \<Rightarrow> status \<times> watcher \<Rightarrow> input \<Rightarrow> effect list" where
  "emitted L c e = drop (length (out (snd c))) (out (snd (step L c e)))"

text \<open>The inputs without the reads that succeed with an empty frame.\<close>

definition withoutEmpty :: "input list \<Rightarrow> input list" where
  "withoutEmpty es = filter (\<lambda>e. \<not> (ok e \<and> Empty (frame e))) es"


text \<open>
  The condition of the specification for the machine to be recording, on the motion
  signals of the cycles (whether motion is present, and the time of the cycle).

  A dropoff is observed at the signal \<open>k\<close> when it shows no motion and the last signal
  before it that showed motion is more than \<open>DefaultRecordingDropoff\<close> older. The
  machine is expected to record when some run of signals with motion, from \<open>i\<close> to
  \<open>j\<close>, lasted longer than \<open>DefaultRecordingThreshold\<close>, and no dropoff was observed
  after \<open>j\<close>.
\<close>

type_synonym signal = "bool \<times> time"

definition signal :: "input \<Rightarrow> signal" where
  "signal e = (present e, clock e)"

definition dropoff_at :: "signal list \<Rightarrow> nat \<Rightarrow> bool" where
  "dropoff_at sigs k =
     (\<not> fst (sigs ! k) \<and>
      (\<exists>m \<in> {..<k}. fst (sigs ! m) \<and> (\<forall>l \<in> {m<..<k}. \<not> fst (sigs ! l)) \<and>
         snd (sigs ! k) - snd (sigs ! m) > DefaultRecordingDropoff))"

definition recording_expected :: "signal list \<Rightarrow> bool" where
  "recording_expected sigs =
     (\<exists>j \<in> {..<length sigs}. \<exists>i \<in> {..<j}.
        (\<forall>k \<in> {i..j}. fst (sigs ! k)) \<and>
        snd (sigs ! j) - snd (sigs ! i) > DefaultRecordingThreshold \<and>
        (\<forall>k \<in> {j<..<length sigs}. \<not> dropoff_at sigs k))"

text \<open>
  For the proof: \<open>t\<close> is the time of the last signal with motion, if there is one; and
  the run of signals with motion that ends the sequence starts at \<open>i\<close>.
\<close>

definition last_motion_is :: "signal list \<Rightarrow> time \<Rightarrow> bool" where
  "last_motion_is sigs t =
     (\<forall>m < length sigs. fst (sigs ! m) \<and> (\<forall>l \<in> {m<..<length sigs}. \<not> fst (sigs ! l))
        \<longrightarrow> t = snd (sigs ! m))"

definition run_from :: "signal list \<Rightarrow> nat \<Rightarrow> bool" where
  "run_from sigs i =
     (i < length sigs \<and> (\<forall>k \<in> {i..<length sigs}. fst (sigs ! k)) \<and>
      (i = 0 \<or> \<not> fst (sigs ! (i - 1))))"

section \<open>Properties of the operations\<close>

lemma FindMotion_range_fst:
  "fst (FindMotion_range shapes i xs (m, dbg)) = (m \<or> (\<exists>s \<in> set xs. MinimumArea \<le> area s))"
  by (induction xs arbitrary: i m dbg) (auto simp: not_less)

lemma FindMotion_range_still:
  "\<forall>s \<in> set xs. area s < MinimumArea \<Longrightarrow>
   FindMotion_range shapes i xs (m, dbg) = (m, dbg)"
  by (induction xs arbitrary: i) auto

lemma FindMotion_fst: "fst (FindMotion e w) = present e"
  using FindMotion_range_fst [of "contours e" 0 "contours e" False "imgDebug w"]
  by (cases "FindMotion_range (contours e) 0 (contours e) (False, imgDebug w)")
     (simp add: FindMotion_def FindContours_def present_def Let_def)

lemma FindMotion_motionDetectedAt:
  "motionDetectedAt (snd (FindMotion e w)) = (if present e then clock e else motionDetectedAt w)"
  using FindMotion_range_fst [of "contours e" 0 "contours e" False "imgDebug w"]
  by (cases "FindMotion_range (contours e) 0 (contours e) (False, imgDebug w)")
     (simp add: FindMotion_def FindContours_def present_def Let_def)

lemma FindMotion_out: "out (snd (FindMotion e w)) = out w"
  by (simp add: FindMotion_def FindContours_def Let_def split: prod.splits)

lemma FindMotion_img: "img (snd (FindMotion e w)) = img w"
  by (simp add: FindMotion_def FindContours_def Let_def split: prod.splits)

lemma FindMotion_still: "\<not> present e \<Longrightarrow> snd (FindMotion e w) = snd (FindContours e w)"
  using FindMotion_range_still [of "contours e" "contours e" 0 False "imgDebug w"]
  by (auto simp: FindMotion_def FindContours_def present_def Let_def not_le)

lemma Read_eq:
  "Read e w =
     (if \<not> ok e then (ReadError ErrReadDevice, w\<lparr>img := frame e\<rparr>)
      else if Empty (frame e) then (ReadAgain, w\<lparr>img := frame e\<rparr>)
      else (ReadNil, w\<lparr>img := frame e, imgDebug := frame e\<rparr>))"
  by (simp add: Read_def Let_def)

lemma FindMotion_imgDebug:
  "imgDebug (snd (FindMotion e w)) =
     snd (FindMotion_range (contours e) 0 (contours e) (False, imgDebug w))"
  by (simp add: FindMotion_def FindContours_def Let_def case_prod_beta)

lemma FindMotion_range_snd:
  "snd (FindMotion_range shapes i xs (m, dbg)) =
     foldl (\<lambda>d (k, s). draw (DrawContours shapes k ColorRed 2)
                         (draw (Rectangle (boundingRect s) ColorBlue 2) d))
       dbg (filter (\<lambda>(k, s). MinimumArea \<le> area s) (enumerate i xs))"
  by (induction xs arbitrary: i m dbg) (auto simp: not_less)

lemma FindMotion_backend:
  "mog2 (snd (FindMotion e w)) = mog2 w @ [img w] \<and>
   imgDelta (snd (FindMotion e w)) = delta e \<and>
   imgThresh (snd (FindMotion e w)) = dilated e"
  by (simp add: FindMotion_def FindContours_def Let_def case_prod_beta)

text \<open>
  C3. The claim is that the motion evaluation has no side effect. \<open>FindMotion\<close> has
  several. It returns the signal (motion is present iff a contour has an area of at
  least \<open>MinimumArea\<close>). On every call it runs \<open>FindContours\<close>, which applies the
  background subtractor to the frame and overwrites \<open>imgDelta\<close> and \<open>imgThresh\<close>. It
  draws on the debug image, for every contour that is not smaller than \<open>MinimumArea\<close>
  and in the order of the contours, the bounding rectangle and then the contour. When
  motion is present it sets \<open>motionDetectedAt\<close> to the time of the cycle. It never
  changes the captured frame or the outputs, and when no contour survives it leaves
  the debug image and \<open>motionDetectedAt\<close> as they were.
\<close>

theorem C3_FindMotion_effects:
  "fst (FindMotion e w) = present e \<and>
   motionDetectedAt (snd (FindMotion e w)) = (if present e then clock e else motionDetectedAt w) \<and>
   imgDebug (snd (FindMotion e w)) =
     foldl (\<lambda>d (k, s). draw (DrawContours (contours e) k ColorRed 2)
                         (draw (Rectangle (boundingRect s) ColorBlue 2) d))
       (imgDebug w) (filter (\<lambda>(k, s). MinimumArea \<le> area s) (enumerate 0 (contours e))) \<and>
   mog2 (snd (FindMotion e w)) = mog2 w @ [img w] \<and>
   imgDelta (snd (FindMotion e w)) = delta e \<and>
   imgThresh (snd (FindMotion e w)) = dilated e \<and>
   img (snd (FindMotion e w)) = img w \<and>
   out (snd (FindMotion e w)) = out w \<and>
   (\<not> present e \<longrightarrow> imgDebug (snd (FindMotion e w)) = imgDebug w)"
proof -
  have "\<not> present e \<Longrightarrow> imgDebug (snd (FindMotion e w)) = imgDebug w"
    by (simp add: FindMotion_still FindContours_def Let_def)
  then show ?thesis
    by (simp add: FindMotion_fst FindMotion_img FindMotion_out FindMotion_motionDetectedAt
        FindMotion_backend FindMotion_imgDebug FindMotion_range_snd)
qed

text \<open>
  Instances of C3, on the watcher that has just read the frame: a contour of area
  2999 is not drawn; of a contour of area 10 and one of area 4000, the second is.
\<close>

theorem C3_FindMotion_effects_witness:
  "\<not> present (capture 2999 5) \<and>
   imgDebug (snd (FindMotion (capture 2999 5) (snd (Read (capture 2999 5) NewWatcher)))) =
     Image 1 960 720 [] \<and>
   present twoShapes \<and>
   motionDetectedAt (snd (FindMotion twoShapes (snd (Read twoShapes NewWatcher)))) = 5 * Second \<and>
   imgDebug (snd (FindMotion twoShapes (snd (Read twoShapes NewWatcher)))) =
     Image 1 960 720
       [Rectangle (5, 5, 80, 60) ColorBlue 2, DrawContours (contours twoShapes) 1 ColorRed 2] \<and>
   mog2 (snd (FindMotion twoShapes (snd (Read twoShapes NewWatcher)))) = [Image 1 960 720 []]"
  using C3_FindMotion_effects [of "capture 2999 5" "snd (Read (capture 2999 5) NewWatcher)"]
    C3_FindMotion_effects [of twoShapes "snd (Read twoShapes NewWatcher)"]
  by (simp add: present_def capture_def twoShapes_def MinimumArea_def Read_def NewWatcher_def
        Let_def enumerate_eq_zip)

text \<open>
  C3, as it is stated, fails on that frame: \<open>FindMotion\<close> changes \<open>motionDetectedAt\<close>,
  the debug image and the state of the background subtractor.
\<close>

theorem C3_FindMotion_pure_counterexample:
  "motionDetectedAt (snd (FindMotion twoShapes (snd (Read twoShapes NewWatcher)))) \<noteq>
     motionDetectedAt (snd (Read twoShapes NewWatcher)) \<and>
   imgDebug (snd (FindMotion twoShapes (snd (Read twoShapes NewWatcher)))) \<noteq>
     imgDebug (snd (Read twoShapes NewWatcher)) \<and>
   mog2 (snd (FindMotion twoShapes (snd (Read twoShapes NewWatcher)))) \<noteq>
     mog2 (snd (Read twoShapes NewWatcher))"
  by (simp add: FindMotion_def FindContours_def capture_def twoShapes_def NewWatcher_def
        Read_def MinimumArea_def Let_def Second_def)

section \<open>Properties of one step\<close>

lemma step_Watching_status:
  "fst (step L (Running InWatching, w) e) =
     (if \<not> ok e then Fatal ErrReadDevice
      else if Empty (frame e) then Running InWatching
      else if present e then Running (InMotionDetected (clock e))
      else Running InWatching)"
  by (simp add: Watching_loop_def Read_eq FindMotion_fst Let_def MotionDetected_enter_def
        MotionDetected_top_def case_prod_beta)

lemma step_MotionDetected_status:
  "fst (step L (Running (InMotionDetected mb), w) e) =
     (if \<not> ok e then Fatal ErrReadDevice
      else if Empty (frame e) then Running (InMotionDetected mb)
      else if \<not> present e then Running InWatching
      else if clock e - mb > DefaultRecordingThreshold then
        (if \<not> sinkOpens e then Fatal ErrVideoWriterFile
         else if \<not> sinkWrites e then Fatal ErrWrite
         else Running (InRecording (clock e) (Format L FilenameLayout (clock e) @ ''.mp4'')))
      else Running (InMotionDetected mb))"
  by (simp add: MotionDetected_loop_def Read_eq FindMotion_fst Let_def BackToWatching_def
        Watching_enter_def Recording_enter_def MotionDetected_top_def case_prod_beta)

lemma step_Recording_status:
  "fst (step L (Running (InRecording rb fn), w) e) =
     (if \<not> ok e then Fatal ErrReadDevice
      else if Empty (frame e) then Running (InRecording rb fn)
      else if \<not> present e \<and> clock e - motionDetectedAt w > DefaultRecordingDropoff
        then Running InWatching
      else if \<not> sinkWrites e then Fatal ErrWrite
      else Running (InRecording rb fn))"
  by (simp add: Recording_loop_def Read_eq Let_def BackToWatching_def FindMotion_fst
        FindMotion_motionDetectedAt Watching_enter_def case_prod_beta)

lemma step_motionDetectedAt:
  "motionDetectedAt (snd (step L (Running p, w) e)) =
     (if ok e \<and> \<not> Empty (frame e) \<and> present e then clock e else motionDetectedAt w)"
  by (cases p)
     (simp_all add: Watching_loop_def MotionDetected_loop_def Recording_loop_def Read_eq Let_def
        BackToWatching_def FindMotion_fst FindMotion_motionDetectedAt Watching_enter_def
        MotionDetected_enter_def MotionDetected_top_def Recording_enter_def
        UpdateDebugStream_def emit_def case_prod_beta)

lemma step_motionDetectedAt_all:
  "motionDetectedAt (snd (step L (st, w) e)) =
     (if running st \<and> ok e \<and> \<not> Empty (frame e) \<and> present e then clock e
      else motionDetectedAt w)"
  by (cases st) (simp_all add: step_motionDetectedAt del: step.simps(1))

lemma step_status_cong:
  assumes "motionDetectedAt w = motionDetectedAt w'" "ok e = ok e'"
    "Empty (frame e) = Empty (frame e')" "present e = present e'" "clock e = clock e'"
    "sinkOpens e = sinkOpens e'" "sinkWrites e = sinkWrites e'"
  shows "fst (step L (st, w) e) = fst (step L (st, w') e')"
proof (cases st)
  case (Running p)
  then show ?thesis using assms
    by (cases p)
       (simp_all only: step_Watching_status step_MotionDetected_status step_Recording_status)
qed simp_all

lemma run_snoc: "run L (es @ [e]) = step L (run L es) e"
  by (simp add: run_def)

text \<open>The status and \<open>motionDetectedAt\<close> after a step, from those before it.\<close>

lemma step_status:
  "fst (step L c e) =
     (case fst c of
        Running p \<Rightarrow>
          (if \<not> ok e then Fatal ErrReadDevice
           else if Empty (frame e) then Running p
           else
             (case p of
                InWatching \<Rightarrow>
                  if present e then Running (InMotionDetected (clock e)) else Running InWatching
              | InMotionDetected mb \<Rightarrow>
                  if \<not> present e then Running InWatching
                  else if clock e - mb > DefaultRecordingThreshold then
                    (if \<not> sinkOpens e then Fatal ErrVideoWriterFile
                     else if \<not> sinkWrites e then Fatal ErrWrite
                     else Running (InRecording (clock e)
                            (Format L FilenameLayout (clock e) @ ''.mp4'')))
                  else Running (InMotionDetected mb)
              | InRecording rb fn \<Rightarrow>
                  if \<not> present e \<and>
                     clock e - motionDetectedAt (snd c) > DefaultRecordingDropoff
                  then Running InWatching
                  else if \<not> sinkWrites e then Fatal ErrWrite
                  else Running (InRecording rb fn)))
      | Fatal err \<Rightarrow> Fatal err
      | Finished \<Rightarrow> Finished)"
proof (cases c)
  case (Pair st w)
  show ?thesis
  proof (cases st)
    case (Running p)
    with Pair show ?thesis
      by (cases p)
         (simp_all add: step_Watching_status step_MotionDetected_status step_Recording_status
            del: step.simps)
  qed (simp_all add: Pair)
qed

lemma step_mda:
  "motionDetectedAt (snd (step L c e)) =
     (if running (fst c) \<and> ok e \<and> \<not> Empty (frame e) \<and> present e then clock e
      else motionDetectedAt (snd c))"
  using step_motionDetectedAt_all [of L "fst c" "snd c" e] by simp

lemmas eval_run =
  run_def start_def NewWatcher_def step_status step_mda capture_def present_def MinimumArea_def
  DefaultRecordingThreshold_def DefaultRecordingDropoff_def Second_def FilenameLayout_def

section \<open>The minimum area\<close>

lemma present_dropSmall: "present (dropSmall e) = present e"
  by (auto simp: present_def dropSmall_def not_less)

lemma run_dropSmall:
  "fst (run L (map dropSmall es)) = fst (run L es) \<and>
   motionDetectedAt (snd (run L (map dropSmall es))) = motionDetectedAt (snd (run L es))"
proof (induction es rule: rev_induct)
  case Nil
  show ?case by (simp add: run_def)
next
  case (snoc e es)
  obtain st w where c: "run L es = (st, w)" by (cases "run L es")
  obtain st' w' where c': "run L (map dropSmall es) = (st', w')"
    by (cases "run L (map dropSmall es)")
  from snoc c c' have eq: "st' = st" "motionDetectedAt w' = motionDetectedAt w" by simp_all
  have d: "ok (dropSmall e) = ok e" "frame (dropSmall e) = frame e"
    "clock (dropSmall e) = clock e" "sinkOpens (dropSmall e) = sinkOpens e"
    "sinkWrites (dropSmall e) = sinkWrites e"
    by (simp_all add: dropSmall_def)
  have "fst (step L (st, w') (dropSmall e)) = fst (step L (st, w) e)"
    by (rule step_status_cong) (simp_all add: eq d present_dropSmall)
  moreover have "motionDetectedAt (snd (step L (st, w') (dropSmall e)))
      = motionDetectedAt (snd (step L (st, w) e))"
    by (simp add: step_motionDetectedAt_all eq d present_dropSmall)
  ultimately show ?case by (simp add: run_snoc c c' eq)
qed

text \<open>
  C5. \<open>FindMotion\<close> returns true exactly when some contour has an area of at least
  \<open>MinimumArea\<close>; and the regions below \<open>MinimumArea\<close> have no influence on the state
  machine: on every sequence of cycles, the place where the machine is (with the
  start times it holds) and \<open>motionDetectedAt\<close> are the same when those regions are
  removed from every cycle.
\<close>

theorem C5_minimum_area:
  "fst (FindMotion e w) = (\<exists>s \<in> set (contours e). MinimumArea \<le> area s) \<and>
   fst (run L (map dropSmall es)) = fst (run L es) \<and>
   motionDetectedAt (snd (run L (map dropSmall es))) = motionDetectedAt (snd (run L es))"
  using run_dropSmall [of L es] by (simp add: FindMotion_fst present_def)

section \<open>The outputs of one step\<close>

lemma step_Watching_out:
  "out (snd (step L (Running InWatching, w) e)) = out w @
     (if \<not> ok e then [LogFatal ErrReadDevice]
      else if Empty (frame e) then []
      else if present e then
        [UpdateJPEG (PutText (debugImage e) (Format L UnixDate (clock e))
           ''Motion Detected'' ColorGreen)]
      else [UpdateJPEG (PutText (debugImage e) (Format L UnixDate (clock e))
              ''Watching'' ColorGreen),
            TickWait DefaultWatchCycle])"
  by (simp add: Watching_loop_def Read_eq FindMotion_fst FindMotion_out FindMotion_imgDebug
        Let_def MotionDetected_enter_def MotionDetected_top_def UpdateDebugStream_def emit_def
        debugImage_def case_prod_beta)

lemma step_MotionDetected_out:
  "out (snd (step L (Running (InMotionDetected mb), w) e)) = out w @
     (if \<not> ok e then [LogFatal ErrReadDevice]
      else if Empty (frame e) then []
      else if \<not> present e then
        [UpdateJPEG (PutText (debugImage e) (Format L UnixDate (clock e))
           ''Watching'' ColorGreen)]
      else if clock e - mb > DefaultRecordingThreshold then
        [LogPrint (''Recording Began: '' @ Format L UnixDate (clock e)),
         VideoWriterFile (Format L FilenameLayout (clock e) @ ''.mp4'') ''avc1'' 25
           (Cols (frame e)) (Rows (frame e))] @
        (if \<not> sinkOpens e then [LogFatal ErrVideoWriterFile]
         else
           [FileWrite (Format L FilenameLayout (clock e) @ ''.mp4'')
              (PutText (frame e) (Format L UnixDate (clock e)) ''Recording'' ColorRed)] @
           (if \<not> sinkWrites e
            then [FileClose (Format L FilenameLayout (clock e) @ ''.mp4''), LogFatal ErrWrite]
            else [UpdateJPEG (PutText (debugImage e) (Format L UnixDate (clock e))
                    ''Recording'' ColorRed)]))
      else [UpdateJPEG (PutText (debugImage e) (Format L UnixDate (clock e))
              ''Motion Detected'' ColorGreen)])"
  by (simp add: MotionDetected_loop_def Read_eq FindMotion_fst FindMotion_out FindMotion_imgDebug
        FindMotion_img Let_def BackToWatching_def Watching_enter_def Recording_enter_def
        MotionDetected_top_def UpdateDebugStream_def emit_def debugImage_def case_prod_beta)

lemma step_Recording_out:
  "out (snd (step L (Running (InRecording rb fn), w) e)) = out w @
     (if \<not> ok e then [FileClose fn, LogFatal ErrReadDevice]
      else if Empty (frame e) then []
      else if \<not> present e \<and> clock e - motionDetectedAt w > DefaultRecordingDropoff then
        [FileClose fn,
         UpdateJPEG (PutText (debugImage e) (Format L UnixDate (clock e))
           ''Watching'' ColorGreen)]
      else
        [FileWrite fn (PutText (frame e)
           (Format L UnixDate (clock e) @ '' '' @ RoundString L (clock e - rb)) ''Recording''
           (if \<not> present e then ColorGreen else ColorRed))] @
        (if \<not> sinkWrites e then [FileClose fn, LogFatal ErrWrite]
         else [UpdateJPEG (PutText (debugImage e)
                 (Format L UnixDate (clock e) @ '' '' @ RoundString L (clock e - rb))
                 ''Recording'' (if \<not> present e then ColorGreen else ColorRed))]))"
  by (simp add: Recording_loop_def Read_eq FindMotion_fst FindMotion_out FindMotion_imgDebug
        FindMotion_img FindMotion_motionDetectedAt Let_def BackToWatching_def Watching_enter_def
        UpdateDebugStream_def emit_def debugImage_def case_prod_beta)

section \<open>The time of the last motion\<close>

lemma emitted_Running:
  "out (snd (step L (Running p, w) e)) = out w @ xs \<Longrightarrow> emitted L (Running p, w) e = xs"
  by (simp add: emitted_def del: step.simps)

lemma run_motionDetectedAt_range:
  "motionDetectedAt (snd (run L es)) = 0 \<or> motionDetectedAt (snd (run L es)) \<in> clock ` set es"
proof (induction es rule: rev_induct)
  case Nil
  show ?case by (simp add: run_def start_def NewWatcher_def)
next
  case (snoc e es)
  obtain st w where c: "run L es = (st, w)" by (cases "run L es")
  show ?case using snoc
    by (auto simp add: run_snoc c step_motionDetectedAt_all simp del: step.simps)
qed

lemma step_into_Watching:
  assumes "fst (step L (Running p, w) e) = Running InWatching" "p \<noteq> InWatching"
  shows "\<not> (ok e \<and> \<not> Empty (frame e) \<and> present e)"
  using assms
  by (cases p)
     (auto simp add: step_MotionDetected_status step_Recording_status
        simp del: step.simps split: if_splits)

text \<open>
  C4. After every sequence of cycles \<open>es\<close> and for every further cycle \<open>e\<close>, in
  whatever place the machine is: \<open>motionDetectedAt\<close> becomes the time of the cycle when
  the process is running and the cycle has a frame with motion present, and keeps its
  value otherwise (so it is not reset when the machine goes back to \<open>Watching\<close>, which
  it does only on a cycle without motion); and with a clock that does not go back,
  \<open>motionDetectedAt\<close> never decreases.
\<close>

theorem C4_motionDetectedAt:
  assumes "sorted (map clock (es @ [e]))" and "\<forall>x \<in> set (es @ [e]). 0 \<le> clock x"
  shows "motionDetectedAt (snd (run L (es @ [e]))) =
           (if running (fst (run L es)) \<and> ok e \<and> \<not> Empty (frame e) \<and> present e
            then clock e else motionDetectedAt (snd (run L es))) \<and>
         motionDetectedAt (snd (run L es)) \<le> motionDetectedAt (snd (run L (es @ [e]))) \<and>
         (fst (run L es) \<noteq> Running InWatching \<and>
          fst (run L (es @ [e])) = Running InWatching \<longrightarrow>
            motionDetectedAt (snd (run L (es @ [e]))) = motionDetectedAt (snd (run L es)))"
proof -
  obtain st w where c: "run L es = (st, w)" by (cases "run L es")
  have kept: "motionDetectedAt (snd (run L (es @ [e]))) = motionDetectedAt (snd (run L es))"
    if "fst (run L es) \<noteq> Running InWatching"
      and "fst (run L (es @ [e])) = Running InWatching"
  proof (cases st)
    case (Running p)
    with that c have "p \<noteq> InWatching"
      and "fst (step L (Running p, w) e) = Running InWatching"
      by (simp_all add: run_snoc del: step.simps)
    then have "\<not> (ok e \<and> \<not> Empty (frame e) \<and> present e)"
      using step_into_Watching [of L p w e] by simp
    then show ?thesis
      by (auto simp add: run_snoc c step_motionDetectedAt_all simp del: step.simps)
  qed (use that c in \<open>simp_all add: run_snoc\<close>)
  have eq: "motionDetectedAt (snd (run L (es @ [e]))) =
           (if running (fst (run L es)) \<and> ok e \<and> \<not> Empty (frame e) \<and> present e
            then clock e else motionDetectedAt (snd (run L es)))"
    by (simp add: run_snoc c step_motionDetectedAt_all del: step.simps)
  have "motionDetectedAt (snd (run L es)) \<le> clock e"
    using run_motionDetectedAt_range [of L es] assms
    by (auto simp add: sorted_append)
  with eq kept show ?thesis by simp
qed

text \<open>
  An instance of C4: two cycles with motion, one and two seconds after the zero time.
\<close>

theorem C4_witness:
  "sorted (map clock ([capture 3000 1] @ [capture 3000 2])) \<and>
   0 \<le> clock (capture 3000 1) \<and> 0 \<le> clock (capture 3000 2) \<and>
   motionDetectedAt (snd (run lib0 ([capture 3000 1] @ [capture 3000 2]))) = 2 * Second \<and>
   motionDetectedAt (snd (run lib0 [capture 3000 1])) = 1 * Second"
  using C4_motionDetectedAt [of "[capture 3000 1]" "capture 3000 2" lib0]
  by (simp add: capture_def Second_def present_def MinimumArea_def run_def start_def
        step_Watching_status step_motionDetectedAt del: step.simps)

section \<open>Empty frames\<close>

lemma step_skip:
  "ok e \<Longrightarrow> Empty (frame e) \<Longrightarrow> step L (Running p, w) e = (Running p, w\<lparr>img := frame e\<rparr>)"
  by (cases p)
     (simp_all add: Watching_loop_def MotionDetected_loop_def Recording_loop_def Read_eq)

lemma step_img:
  "step L (Running p, w\<lparr>img := x\<rparr>) e = step L (Running p, w) e"
  by (cases p)
     (simp_all add: Watching_loop_def MotionDetected_loop_def Recording_loop_def Read_eq)

lemma step_not_running: "\<not> running st \<Longrightarrow> step L (st, w) e = (st, w)"
  by (cases st) simp_all

lemma same_but_img:
  "w\<lparr>img := EmptyMat\<rparr> = w'\<lparr>img := EmptyMat\<rparr> \<Longrightarrow> w' = w\<lparr>img := img w'\<rparr>"
  by (cases w, cases w') simp

lemma step_same_but_img:
  assumes "w\<lparr>img := EmptyMat\<rparr> = w'\<lparr>img := EmptyMat\<rparr>"
  shows "fst (step L (st, w) e) = fst (step L (st, w') e) \<and>
         (snd (step L (st, w) e))\<lparr>img := EmptyMat\<rparr> = (snd (step L (st, w') e))\<lparr>img := EmptyMat\<rparr>"
proof (cases st)
  case (Running p)
  have "w' = w\<lparr>img := img w'\<rparr>" using assms by (rule same_but_img)
  then have "step L (Running p, w') e = step L (Running p, w) e"
    using step_img [where L = L and p = p and w = w and x = "img w'" and e = e] by simp
  with Running show ?thesis by simp
qed (simp_all add: assms)

lemma run_withoutEmpty:
  "fst (run L es) = fst (run L (withoutEmpty es)) \<and>
   (snd (run L es))\<lparr>img := EmptyMat\<rparr> = (snd (run L (withoutEmpty es)))\<lparr>img := EmptyMat\<rparr>"
proof (induction es rule: rev_induct)
  case Nil
  show ?case by (simp add: withoutEmpty_def)
next
  case (snoc e es)
  obtain st w where c: "run L es = (st, w)" by (cases "run L es")
  obtain st' w' where c': "run L (withoutEmpty es) = (st', w')"
    by (cases "run L (withoutEmpty es)")
  from snoc c c' have eq: "st' = st" "w\<lparr>img := EmptyMat\<rparr> = w'\<lparr>img := EmptyMat\<rparr>" by simp_all
  show ?case
  proof (cases "ok e \<and> Empty (frame e)")
    case True
    then have we: "withoutEmpty (es @ [e]) = withoutEmpty es" by (simp add: withoutEmpty_def)
    show ?thesis
    proof (cases st)
      case (Running p)
      with True eq show ?thesis by (simp add: we run_snoc c c' step_skip del: step.simps)
    qed (simp_all add: we run_snoc c c' eq)
  next
    case False
    then have we: "withoutEmpty (es @ [e]) = withoutEmpty es @ [e]"
      by (auto simp add: withoutEmpty_def)
    show ?thesis using step_same_but_img [OF eq(2), of L st e]
      by (simp add: we run_snoc c c' eq del: step.simps)
  qed
qed

lemma step_skip_then:
  assumes "ok x" and "Empty (frame x)"
  shows "step L (step L c x) e = step L c e"
proof (cases c)
  case (Pair st w)
  show ?thesis
  proof (cases st)
    case (Running p)
    with Pair show ?thesis
      using step_skip [OF assms, of L p w]
        step_img [where L = L and p = p and w = w and x = "frame x" and e = e]
      by (simp del: step.simps)
  qed (simp_all add: Pair)
qed

lemma run_empties_then:
  assumes "\<forall>x \<in> set empties. ok x \<and> Empty (frame x)"
  shows "run L (es @ empties @ [e]) = run L (es @ [e])"
  using assms
proof (induction empties arbitrary: es)
  case Nil
  show ?case by simp
next
  case (Cons x xs)
  then have x: "ok x" "Empty (frame x)" and xs: "\<forall>x \<in> set xs. ok x \<and> Empty (frame x)"
    by simp_all
  have "run L (es @ (x # xs) @ [e]) = run L ((es @ [x]) @ xs @ [e])" by simp
  also have "\<dots> = run L ((es @ [x]) @ [e])" by (rule Cons.IH [OF xs])
  also have "\<dots> = step L (step L (run L es) x) e" by (simp only: run_snoc)
  also have "\<dots> = step L (run L es) e" by (rule step_skip_then [OF x])
  also have "\<dots> = run L (es @ [e])" by (simp only: run_snoc)
  finally show ?case .
qed

text \<open>
  C6. A read that succeeds with an empty frame makes the loop of \<open>Read\<close> go round
  again: the step leaves the machine where it is, puts nothing out and changes nothing
  but the Mat that was read into. \<open>Read\<close> goes round again on such a read only: it
  returns the error on a failed read and nil on a frame that is not empty. So after
  any number of empty frames the next input is processed exactly as if they had not
  been there; and on every sequence of inputs the machine ends in the same place,
  with the same outputs, debug image and \<open>motionDetectedAt\<close>, as on the sequence
  without the empty frames, which reach neither \<open>FindMotion\<close> nor the kernels.
\<close>

theorem C6_empty_frame_skipped:
  assumes "ok e" and "Empty (frame e)" and "\<forall>x \<in> set empties. ok x \<and> Empty (frame x)"
  shows "Read e w = (ReadAgain, w\<lparr>img := frame e\<rparr>) \<and>
         step L (Running p, w) e = (Running p, w\<lparr>img := frame e\<rparr>) \<and>
         Read e' w =
           (if \<not> ok e' then (ReadError ErrReadDevice, w\<lparr>img := frame e'\<rparr>)
            else if Empty (frame e') then (ReadAgain, w\<lparr>img := frame e'\<rparr>)
            else (ReadNil, w\<lparr>img := frame e', imgDebug := frame e'\<rparr>)) \<and>
         run L (es @ empties @ [e']) = run L (es @ [e']) \<and>
         fst (run L (es @ e # es')) = fst (run L (withoutEmpty (es @ es'))) \<and>
         (snd (run L (es @ e # es')))\<lparr>img := EmptyMat\<rparr> =
           (snd (run L (withoutEmpty (es @ es'))))\<lparr>img := EmptyMat\<rparr>"
proof -
  have "withoutEmpty (es @ e # es') = withoutEmpty (es @ es')"
    using assms by (simp add: withoutEmpty_def)
  then show ?thesis
    using run_withoutEmpty [of L "es @ e # es'"] step_skip [OF assms(1,2), of L p w]
      run_empties_then [OF assms(3), of L es e'] assms(1,2)
    by (simp add: Read_eq del: step.simps)
qed

text \<open>
  An instance of C6: in \<open>MotionDetected\<close>, two empty frames before the capture that
  confirms the motion, or before a failed read.
\<close>

theorem C6_witness:
  "ok emptyRead \<and> Empty (frame emptyRead) \<and>
   Read emptyRead (snd (run lib0 [capture 3000 0])) =
     (ReadAgain, (snd (run lib0 [capture 3000 0]))\<lparr>img := EmptyMat\<rparr>) \<and>
   fst (Read (capture 3000 3) (snd (run lib0 [capture 3000 0]))) = ReadNil \<and>
   fst (Read ((capture 3000 3)\<lparr>ok := False\<rparr>) (snd (run lib0 [capture 3000 0]))) =
     ReadError ErrReadDevice \<and>
   run lib0 ([capture 3000 0] @ [emptyRead, emptyRead] @ [capture 3000 3]) =
     run lib0 ([capture 3000 0] @ [capture 3000 3]) \<and>
   fst (run lib0 ([capture 3000 0] @ [capture 3000 3])) =
     Running (InRecording (3 * Second) ''2006-01-02-150405-MST.mp4'')"
proof -
  have 1: "\<forall>x \<in> set [emptyRead, emptyRead]. ok x \<and> Empty (frame x)"
    by (simp add: emptyRead_def capture_def)
  have 2: "ok emptyRead" "Empty (frame emptyRead)" "frame emptyRead = EmptyMat"
    by (simp_all add: emptyRead_def capture_def)
  have 3: "fst (run lib0 ([capture 3000 0] @ [capture 3000 3])) =
     Running (InRecording (3 * Second) ''2006-01-02-150405-MST.mp4'')"
    by (simp add: eval_run lib0_def del: step.simps)
  show ?thesis
    using C6_empty_frame_skipped [where e = emptyRead and empties = "[emptyRead, emptyRead]"
        and w = "snd (run lib0 [capture 3000 0])" and L = lib0 and p = InWatching
        and e' = "capture 3000 3" and es = "[capture 3000 0]" and es' = "[]", OF 2(1,2) 1]
      C6_empty_frame_skipped [where e = emptyRead and empties = "[emptyRead, emptyRead]"
        and w = "snd (run lib0 [capture 3000 0])" and L = lib0 and p = InWatching
        and e' = "(capture 3000 3)\<lparr>ok := False\<rparr>" and es = "[capture 3000 0]" and es' = "[]",
        OF 2(1,2) 1]
      2 3
    by (simp add: capture_def del: step.simps)
qed

section \<open>The recording file, the tick and the first recorded frame\<close>

lemma step_out_grows:
  "\<exists>xs. out (snd (step L (st, w) e)) = out w @ xs"
proof (cases st)
  case (Running p)
  then show ?thesis
    using step_Watching_out [of L w e] step_MotionDetected_out [of L _ w e]
      step_Recording_out [of L _ _ w e]
    by (cases p) (simp_all del: step.simps)
qed simp_all

lemma run_recording_file:
  "fst (run L es) = Running (InRecording rb fn) \<Longrightarrow>
     fn = Format L FilenameLayout rb @ ''.mp4'' \<and>
     (\<exists>e \<in> set es. clock e = rb \<and>
        VideoWriterFile fn ''avc1'' 25 (Cols (frame e)) (Rows (frame e))
          \<in> set (out (snd (run L es))))"
proof (induction es arbitrary: rb fn rule: rev_induct)
  case Nil
  then show ?case by (simp add: run_def start_def)
next
  case (snoc e es)
  obtain st w where c: "run L es = (st, w)" by (cases "run L es")
  show ?case
  proof (cases st)
    case (Running p)
    show ?thesis
    proof (cases p)
      case InWatching
      with snoc.prems Running c show ?thesis
        by (simp add: run_snoc step_Watching_status del: step.simps split: if_splits)
    next
      case (InMotionDetected mb)
      with snoc.prems Running c
      have "ok e \<and> \<not> Empty (frame e) \<and> present e \<and> clock e - mb > DefaultRecordingThreshold
          \<and> sinkOpens e \<and> sinkWrites e \<and> rb = clock e \<and>
          fn = Format L FilenameLayout (clock e) @ ''.mp4''"
        by (auto simp add: run_snoc step_MotionDetected_status simp del: step.simps
              split: if_splits)
      then show ?thesis using Running c InMotionDetected
        by (simp add: run_snoc step_MotionDetected_out del: step.simps)
    next
      case (InRecording rb' fn')
      with snoc.prems Running c have same: "rb' = rb" "fn' = fn"
        by (simp_all add: run_snoc step_Recording_status del: step.simps split: if_splits)
      with snoc.IH [of rb fn] c Running InRecording obtain e0 where
        fn: "fn = Format L FilenameLayout rb @ ''.mp4''" and e0: "e0 \<in> set es" "clock e0 = rb"
        "VideoWriterFile fn ''avc1'' 25 (Cols (frame e0)) (Rows (frame e0)) \<in> set (out w)"
        by auto
      from step_out_grows [of L st w e] obtain xs where
        "out (snd (step L (st, w) e)) = out w @ xs" ..
      with e0 fn show ?thesis
        by (auto simp add: run_snoc c simp del: step.simps intro!: bexI [where x = e0])
    qed
  next
    case (Fatal err)
    with snoc.prems c show ?thesis by (simp add: run_snoc)
  next
    case Finished
    with snoc.prems c show ?thesis by (simp add: run_snoc)
  qed
qed

text \<open>
  C8. Whenever the machine is in \<open>Recording\<close>, the name of its file is the start time
  of the recording formatted with the layout \<open>2006-01-02-150405-MST\<close> (year, month,
  day, time of day, time zone abbreviation), followed by \<open>.mp4\<close>; the start time is
  the time of one of the cycles, and in that cycle \<open>gocv.VideoWriterFile\<close> was called
  with this name (codec \<open>avc1\<close>, 25 frames per second, the dimensions of the frame).
  So two recordings with equal start times have equal file names.
\<close>

theorem C8_filename:
  assumes "fst (run L es) = Running (InRecording recordingBegan filename)"
    and "fst (run L es') = Running (InRecording recordingBegan' filename')"
  shows "filename = Format L ''2006-01-02-150405-MST'' recordingBegan @ ''.mp4'' \<and>
         (\<exists>e \<in> set es. clock e = recordingBegan \<and>
            VideoWriterFile filename ''avc1'' 25 (Cols (frame e)) (Rows (frame e))
              \<in> set (out (snd (run L es)))) \<and>
         (recordingBegan = recordingBegan' \<longrightarrow> filename = filename')"
  using run_recording_file [OF assms(1)] run_recording_file [OF assms(2)]
  unfolding FilenameLayout_def by auto

text \<open>
  Instances of C8, with the library whose \<open>Format\<close> depends on the time: a recording
  that starts at three seconds and one that starts at four.
\<close>

lemma run_lib1_3:
  "fst (run lib1 [capture 3000 0, capture 3000 3]) =
     Running (InRecording (3 * Second) ''2006-01-02-150405-MST@3.mp4'')"
  by (simp add: eval_run lib1_def digit_def del: step.simps)

lemma run_lib1_4:
  "fst (run lib1 [capture 0 0, capture 3000 1, capture 3000 4]) =
     Running (InRecording (4 * Second) ''2006-01-02-150405-MST@4.mp4'')"
  by (simp add: eval_run lib1_def digit_def del: step.simps)

theorem C8_witness:
  "fst (run lib1 [capture 3000 0, capture 3000 3]) =
     Running (InRecording (3 * Second) ''2006-01-02-150405-MST@3.mp4'') \<and>
   fst (run lib1 [capture 0 0, capture 3000 1, capture 3000 4]) =
     Running (InRecording (4 * Second) ''2006-01-02-150405-MST@4.mp4'') \<and>
   ''2006-01-02-150405-MST@3.mp4'' =
     Format lib1 ''2006-01-02-150405-MST'' (3 * Second) @ ''.mp4'' \<and>
   VideoWriterFile ''2006-01-02-150405-MST@3.mp4'' ''avc1'' 25 960 720
     \<in> set (out (snd (run lib1 [capture 3000 0, capture 3000 3])))"
  using C8_filename [OF run_lib1_3 run_lib1_4] run_lib1_3 run_lib1_4
  by (auto simp add: capture_def)

text \<open>
  C9. The claim is that every cycle in \<open>Watching\<close> or \<open>MotionDetected\<close> waits for the
  tick. In the code only \<open>Watching\<close> has the ticker: a step waits for the tick (of
  \<open>DefaultWatchCycle\<close>, 200ms) exactly when the machine is in \<open>Watching\<close> and the cycle
  has a frame without motion. The cycles of \<open>MotionDetected\<close> and \<open>Recording\<close>, and the
  cycle of \<open>Watching\<close> that detects motion, go on to the next read without a wait.
\<close>

theorem C9_tick_wait:
  "TickWait d \<in> set (emitted L (Running p, w) e) \<longleftrightarrow>
     p = InWatching \<and> ok e \<and> \<not> Empty (frame e) \<and> \<not> present e \<and> d = DefaultWatchCycle"
proof (cases p)
  case InWatching
  then show ?thesis
    by (simp add: emitted_Running [OF step_Watching_out] del: step.simps)
next
  case (InMotionDetected mb)
  then show ?thesis
    by (simp add: emitted_Running [OF step_MotionDetected_out] del: step.simps)
next
  case (InRecording rb fn)
  then show ?thesis
    by (simp add: emitted_Running [OF step_Recording_out] del: step.simps)
qed

lemma run1_confirming: "fst (run lib0 [capture 3000 0]) = Running (InMotionDetected 0)"
  by (simp add: run_def start_def step_Watching_status capture_def present_def MinimumArea_def
        Second_def del: step.simps)

text \<open>
  C9, as it is stated, fails in \<open>MotionDetected\<close>: after a first capture with motion
  the machine is there, the next capture with motion, one second later, keeps it
  there, and that cycle does not wait for the tick.
\<close>

theorem C9_confirming_counterexample:
  "fst (run lib0 [capture 3000 0]) = Running (InMotionDetected 0) \<and>
   fst (run lib0 [capture 3000 0, capture 3000 1]) = Running (InMotionDetected 0) \<and>
   TickWait DefaultWatchCycle \<notin> set (emitted lib0 (run lib0 [capture 3000 0]) (capture 3000 1))"
proof -
  obtain w1 where c: "run lib0 [capture 3000 0] = (Running (InMotionDetected 0), w1)"
    using run1_confirming by (cases "run lib0 [capture 3000 0]") simp
  have s: "run lib0 [capture 3000 0, capture 3000 1] =
      step lib0 (Running (InMotionDetected 0), w1) (capture 3000 1)"
    using run_snoc [of lib0 "[capture 3000 0]" "capture 3000 1"]
    by (simp only: c append_Cons append_Nil)
  have 2: "fst (run lib0 [capture 3000 0, capture 3000 1]) = Running (InMotionDetected 0)"
    by (simp only: s)
       (simp add: step_MotionDetected_status capture_def present_def MinimumArea_def
          DefaultRecordingThreshold_def Second_def del: step.simps)
  have 3: "TickWait DefaultWatchCycle \<notin>
      set (emitted lib0 (Running (InMotionDetected 0), w1) (capture 3000 1))"
    by (simp add: emitted_Running [OF step_MotionDetected_out] del: step.simps)
  from c 2 3 show ?thesis by simp
qed

text \<open>
  C10. The step that reads the confirming frame in \<open>MotionDetected\<close> (motion present,
  more than \<open>DefaultRecordingThreshold\<close> after \<open>motionBegan\<close>) and opens the file puts
  out, in this order: the log line, the opening of the file, and the write of that
  very frame with the text "Recording" drawn on it. All of it happens before the next
  call of \<open>Read\<close>, which starts the next step.
\<close>

theorem C10_confirming_frame_recorded:
  assumes "ok e" and "\<not> Empty (frame e)" and "present e"
    and "clock e - motionBegan > DefaultRecordingThreshold" and "sinkOpens e"
  shows "emitted L (Running (InMotionDetected motionBegan), w) e =
      [LogPrint (''Recording Began: '' @ Format L UnixDate (clock e)),
       VideoWriterFile (Format L FilenameLayout (clock e) @ ''.mp4'') ''avc1'' 25
         (Cols (frame e)) (Rows (frame e)),
       FileWrite (Format L FilenameLayout (clock e) @ ''.mp4'')
         (PutText (frame e) (Format L UnixDate (clock e)) ''Recording'' ColorRed)] @
      (if sinkWrites e
       then [UpdateJPEG (PutText (debugImage e) (Format L UnixDate (clock e))
               ''Recording'' ColorRed)]
       else [FileClose (Format L FilenameLayout (clock e) @ ''.mp4''), LogFatal ErrWrite])"
  using assms by (simp add: emitted_Running [OF step_MotionDetected_out] del: step.simps)

text \<open>
  An instance of C10: a capture with motion three seconds after \<open>motionBegan\<close>.
\<close>

theorem C10_witness:
  "ok (capture 3000 3) \<and> \<not> Empty (frame (capture 3000 3)) \<and> present (capture 3000 3) \<and>
   clock (capture 3000 3) - 0 > DefaultRecordingThreshold \<and> sinkOpens (capture 3000 3) \<and>
   emitted lib0 (Running (InMotionDetected 0), NewWatcher) (capture 3000 3) =
      [LogPrint ''Recording Began: Mon Jan _2 15:04:05 MST 2006'',
       VideoWriterFile ''2006-01-02-150405-MST.mp4'' ''avc1'' 25 960 720,
       FileWrite ''2006-01-02-150405-MST.mp4''
         (Image 1 960 720 [Text ''Mon Jan _2 15:04:05 MST 2006'' (10, 20) ColorRed 2,
            Text ''Recording'' (10, 50) ColorRed 2]),
       UpdateJPEG (Image 1 960 720
         [Rectangle (0, 0, 100, 100) ColorBlue 2,
          DrawContours [\<lparr>area = 3000, boundingRect = (0, 0, 100, 100)\<rparr>] 0 ColorRed 2,
          Text ''Mon Jan _2 15:04:05 MST 2006'' (10, 20) ColorRed 2,
          Text ''Recording'' (10, 50) ColorRed 2])]"
  using C10_confirming_frame_recorded [of "capture 3000 3" 0 lib0 NewWatcher]
  by (simp add: capture_def present_def MinimumArea_def DefaultRecordingThreshold_def Second_def
        lib0_def UnixDate_def FilenameLayout_def PutText_def debugImage_def del: step.simps)

section \<open>Failures\<close>

lemma step_read_failure:
  "\<not> ok e \<Longrightarrow> fst (step L (Running p, w) e) = Fatal ErrReadDevice"
  by (cases p)
     (simp_all add: step_Watching_status step_MotionDetected_status step_Recording_status
        del: step.simps)

lemma run_after_exit:
  "\<not> running (fst (run L es)) \<Longrightarrow> run L (es @ es') = run L es"
proof (induction es' rule: rev_induct)
  case Nil
  show ?case by simp
next
  case (snoc e es')
  obtain st w where c: "run L es = (st, w)" by (cases "run L es")
  from snoc have "run L (es @ es') = (st, w)" by (simp add: c)
  moreover from snoc.prems c have "\<not> running st" by simp
  ultimately show ?case
    using run_snoc [of L "es @ es'" e] by (simp add: step_not_running c)
qed

text \<open>
  C7. In whatever place the machine is, when \<open>w.src.Read\<close> fails, \<open>Read\<close> returns
  \<open>ErrReadDevice\<close>, the kernel returns it (after closing the file, in \<open>Recording\<close>),
  \<open>main\<close> calls \<open>log.Fatal\<close> with it and the process ends: no later input changes
  anything.
\<close>

theorem C7_read_failure_ends_process:
  assumes "fst (run L es) = Running p" and "\<not> ok e"
  shows "fst (Read e w) = ReadError ErrReadDevice \<and>
         fst (run L (es @ [e])) = Fatal ErrReadDevice \<and>
         emitted L (run L es) e =
           (case p of
              InWatching \<Rightarrow> [LogFatal ErrReadDevice]
            | InMotionDetected motionBegan \<Rightarrow> [LogFatal ErrReadDevice]
            | InRecording recordingBegan filename \<Rightarrow>
                [FileClose filename, LogFatal ErrReadDevice]) \<and>
         run L (es @ e # es') = run L (es @ [e])"
proof -
  obtain w0 where c: "run L es = (Running p, w0)"
    using assms(1) by (cases "run L es") simp
  have f: "fst (run L (es @ [e])) = Fatal ErrReadDevice"
    using step_read_failure [OF assms(2), of L p w0] by (simp add: run_snoc c del: step.simps)
  then have "run L ((es @ [e]) @ es') = run L (es @ [e])"
    by (intro run_after_exit) simp
  then have a: "run L (es @ e # es') = run L (es @ [e])" by simp
  have "emitted L (Running p, w0) e =
           (case p of
              InWatching \<Rightarrow> [LogFatal ErrReadDevice]
            | InMotionDetected motionBegan \<Rightarrow> [LogFatal ErrReadDevice]
            | InRecording recordingBegan filename \<Rightarrow>
                [FileClose filename, LogFatal ErrReadDevice])"
    using assms(2)
    by (cases p)
       (simp_all add: emitted_Running [OF step_Watching_out]
          emitted_Running [OF step_MotionDetected_out] emitted_Running [OF step_Recording_out]
          del: step.simps)
  with f a assms(2) show ?thesis by (simp add: c Read_eq)
qed

lemma run2_recording:
  "fst (run lib0 [capture 3000 0, capture 3000 3]) =
     Running (InRecording (3 * Second) ''2006-01-02-150405-MST.mp4'')"
  by (simp add: eval_run lib0_def del: step.simps)

text \<open>An instance of C7: a failed read while the machine is recording.\<close>

theorem C7_witness:
  "fst (run lib0 [capture 3000 0, capture 3000 3]) =
     Running (InRecording (3 * Second) ''2006-01-02-150405-MST.mp4'') \<and>
   \<not> ok ((capture 3000 4)\<lparr>ok := False\<rparr>) \<and>
   fst (run lib0 ([capture 3000 0, capture 3000 3] @ [(capture 3000 4)\<lparr>ok := False\<rparr>])) =
     Fatal ErrReadDevice \<and>
   emitted lib0 (run lib0 [capture 3000 0, capture 3000 3]) ((capture 3000 4)\<lparr>ok := False\<rparr>) =
     [FileClose ''2006-01-02-150405-MST.mp4'', LogFatal ErrReadDevice] \<and>
   run lib0 ([capture 3000 0, capture 3000 3] @ (capture 3000 4)\<lparr>ok := False\<rparr> #
       [capture 3000 5, capture 3000 6]) =
     run lib0 ([capture 3000 0, capture 3000 3] @ [(capture 3000 4)\<lparr>ok := False\<rparr>])"
proof -
  have n: "\<not> ok ((capture 3000 4)\<lparr>ok := False\<rparr>)" by simp
  from C7_read_failure_ends_process [OF run2_recording n, of NewWatcher
      "[capture 3000 5, capture 3000 6]"] run2_recording n
  show ?thesis by simp
qed

text \<open>
  C2. The claim is that a failed write leads back to \<open>Watching\<close> and that the loop goes
  on. \<open>Recording\<close> does return \<open>w.BackToWatching\<close> with the error, but the loop of
  \<open>main\<close> calls \<open>log.Fatal\<close> on every error: the process ends. Here the machine is
  recording after two captures with motion, three seconds apart; the write of the
  third capture fails and the process ends with that error, and a later input changes
  nothing. The same happens when the file cannot be opened.
\<close>

theorem C2_write_failure_is_fatal:
  "fst (run lib0 [capture 3000 0, capture 3000 3]) =
     Running (InRecording (3 * Second) ''2006-01-02-150405-MST.mp4'') \<and>
   fst (run lib0 [capture 3000 0, capture 3000 3, (capture 3000 4)\<lparr>sinkWrites := False\<rparr>]) =
     Fatal ErrWrite \<and>
   fst (run lib0 [capture 3000 0, capture 3000 3, (capture 3000 4)\<lparr>sinkWrites := False\<rparr>,
          capture 0 5]) = Fatal ErrWrite \<and>
   fst (run lib0 [capture 3000 0, (capture 3000 3)\<lparr>sinkOpens := False\<rparr>]) =
     Fatal ErrVideoWriterFile"
proof -
  obtain w1 where c1: "run lib0 [capture 3000 0] = (Running (InMotionDetected 0), w1)"
    using run1_confirming by (cases "run lib0 [capture 3000 0]") simp
  have s2: "run lib0 [capture 3000 0, capture 3000 3] =
      step lib0 (Running (InMotionDetected 0), w1) (capture 3000 3)"
    using run_snoc [of lib0 "[capture 3000 0]" "capture 3000 3"]
    by (simp only: c1 append_Cons append_Nil)
  have r2: "fst (run lib0 [capture 3000 0, capture 3000 3]) =
      Running (InRecording (3 * Second) ''2006-01-02-150405-MST.mp4'')"
    by (simp only: s2)
       (simp add: step_MotionDetected_status capture_def present_def MinimumArea_def
          DefaultRecordingThreshold_def Second_def lib0_def FilenameLayout_def del: step.simps)
  then obtain w2 where c2: "run lib0 [capture 3000 0, capture 3000 3] =
      (Running (InRecording (3 * Second) ''2006-01-02-150405-MST.mp4''), w2)"
    by (cases "run lib0 [capture 3000 0, capture 3000 3]") simp
  have s3: "run lib0 [capture 3000 0, capture 3000 3, (capture 3000 4)\<lparr>sinkWrites := False\<rparr>] =
      step lib0 (Running (InRecording (3 * Second) ''2006-01-02-150405-MST.mp4''), w2)
        ((capture 3000 4)\<lparr>sinkWrites := False\<rparr>)"
    using run_snoc [of lib0 "[capture 3000 0, capture 3000 3]"
        "(capture 3000 4)\<lparr>sinkWrites := False\<rparr>"]
    by (simp only: c2 append_Cons append_Nil)
  have r3: "fst (run lib0 [capture 3000 0, capture 3000 3,
      (capture 3000 4)\<lparr>sinkWrites := False\<rparr>]) = Fatal ErrWrite"
    by (simp only: s3)
       (simp add: step_Recording_status capture_def present_def MinimumArea_def
          del: step.simps)
  have "run lib0 ([capture 3000 0, capture 3000 3, (capture 3000 4)\<lparr>sinkWrites := False\<rparr>]
      @ [capture 0 5]) =
      run lib0 [capture 3000 0, capture 3000 3, (capture 3000 4)\<lparr>sinkWrites := False\<rparr>]"
    by (rule run_after_exit) (simp only: r3 running.simps, simp)
  then have r4: "fst (run lib0 [capture 3000 0, capture 3000 3,
      (capture 3000 4)\<lparr>sinkWrites := False\<rparr>, capture 0 5]) = Fatal ErrWrite"
    using r3 by (simp only: append_Cons append_Nil)
  have s5: "run lib0 [capture 3000 0, (capture 3000 3)\<lparr>sinkOpens := False\<rparr>] =
      step lib0 (Running (InMotionDetected 0), w1) ((capture 3000 3)\<lparr>sinkOpens := False\<rparr>)"
    using run_snoc [of lib0 "[capture 3000 0]" "(capture 3000 3)\<lparr>sinkOpens := False\<rparr>"]
    by (simp only: c1 append_Cons append_Nil)
  have r5: "fst (run lib0 [capture 3000 0, (capture 3000 3)\<lparr>sinkOpens := False\<rparr>]) =
      Fatal ErrVideoWriterFile"
    by (simp only: s5)
       (simp add: step_MotionDetected_status capture_def present_def MinimumArea_def
          DefaultRecordingThreshold_def Second_def del: step.simps)
  from r2 r3 r4 r5 show ?thesis by (intro conjI)
qed

section \<open>When the machine records\<close>

lemma dropoff_at_old:
  "k < length sigs \<Longrightarrow> dropoff_at (sigs @ [s]) k = dropoff_at sigs k"
  by (auto simp add: dropoff_at_def nth_append)

lemma dropoff_at_new:
  "dropoff_at (sigs @ [s]) (length sigs) =
     (\<not> fst s \<and>
      (\<exists>m < length sigs. fst (sigs ! m) \<and> (\<forall>l \<in> {m<..<length sigs}. \<not> fst (sigs ! l)) \<and>
         snd s - snd (sigs ! m) > DefaultRecordingDropoff))"
  by (auto simp add: dropoff_at_def nth_append)

lemma recording_expected_snoc:
  "recording_expected (sigs @ [s]) =
     (recording_expected sigs \<and> \<not> dropoff_at (sigs @ [s]) (length sigs) \<or>
      fst s \<and> (\<exists>i < length sigs. (\<forall>k \<in> {i..<length sigs}. fst (sigs ! k)) \<and>
         snd s - snd (sigs ! i) > DefaultRecordingThreshold))"
  (is "?L = (?A \<or> ?B)")
proof
  assume ?L
  then obtain j i where j: "j < Suc (length sigs)" and i: "i < j"
    and r: "\<forall>k \<in> {i..j}. fst ((sigs @ [s]) ! k)"
    and c: "snd ((sigs @ [s]) ! j) - snd ((sigs @ [s]) ! i) > DefaultRecordingThreshold"
    and g: "\<forall>k \<in> {j<..<Suc (length sigs)}. \<not> dropoff_at (sigs @ [s]) k"
    by (auto simp add: recording_expected_def)
  show "?A \<or> ?B"
  proof (cases "j = length sigs")
    case True
    have "fst ((sigs @ [s]) ! j)" using r i by simp
    then have "fst s" using True by simp
    moreover have "\<forall>k \<in> {i..<length sigs}. fst (sigs ! k)"
    proof
      fix k assume "k \<in> {i..<length sigs}"
      then have "k \<in> {i..j}" "k < length sigs" using True by auto
      with r show "fst (sigs ! k)" by (auto simp add: nth_append dest: bspec [where x = k])
    qed
    moreover have "snd s - snd (sigs ! i) > DefaultRecordingThreshold"
      using c True i by (simp add: nth_append)
    ultimately have ?B using i True by auto
    then show ?thesis ..
  next
    case False
    with j have jn: "j < length sigs" by simp
    have r': "\<forall>k \<in> {i..j}. fst (sigs ! k)"
    proof
      fix k assume k: "k \<in> {i..j}"
      with jn have "k < length sigs" by simp
      with r k show "fst (sigs ! k)" by (auto simp add: nth_append dest: bspec [where x = k])
    qed
    have c': "snd (sigs ! j) - snd (sigs ! i) > DefaultRecordingThreshold"
      using c jn i by (simp add: nth_append)
    have g': "\<forall>k \<in> {j<..<length sigs}. \<not> dropoff_at sigs k"
    proof
      fix k assume k: "k \<in> {j<..<length sigs}"
      then have "k \<in> {j<..<Suc (length sigs)}" by simp
      with g have "\<not> dropoff_at (sigs @ [s]) k" by blast
      with k show "\<not> dropoff_at sigs k" by (simp add: dropoff_at_old)
    qed
    have "recording_expected sigs"
      unfolding recording_expected_def using jn i r' c' g' by blast
    moreover have "\<not> dropoff_at (sigs @ [s]) (length sigs)"
      using g jn by simp
    ultimately have ?A by simp
    then show ?thesis ..
  qed
next
  assume "?A \<or> ?B"
  then show ?L
  proof
    assume ?A
    then obtain j i where jn: "j < length sigs" and i: "i < j"
      and r: "\<forall>k \<in> {i..j}. fst (sigs ! k)"
      and c: "snd (sigs ! j) - snd (sigs ! i) > DefaultRecordingThreshold"
      and g: "\<forall>k \<in> {j<..<length sigs}. \<not> dropoff_at sigs k"
      and d: "\<not> dropoff_at (sigs @ [s]) (length sigs)"
      by (auto simp add: recording_expected_def)
    have r': "\<forall>k \<in> {i..j}. fst ((sigs @ [s]) ! k)"
      using r jn by (auto simp add: nth_append)
    have c': "snd ((sigs @ [s]) ! j) - snd ((sigs @ [s]) ! i) > DefaultRecordingThreshold"
      using c jn i by (simp add: nth_append)
    have g': "\<forall>k \<in> {j<..<length (sigs @ [s])}. \<not> dropoff_at (sigs @ [s]) k"
    proof
      fix k assume k: "k \<in> {j<..<length (sigs @ [s])}"
      show "\<not> dropoff_at (sigs @ [s]) k"
      proof (cases "k = length sigs")
        case True
        with d show ?thesis by simp
      next
        case False
        with k have "k < length sigs" by simp
        with g k show ?thesis by (simp add: dropoff_at_old)
      qed
    qed
    show ?L unfolding recording_expected_def using jn i r' c' g'
      by (intro bexI [where x = j] bexI [where x = i]) auto
  next
    assume ?B
    then obtain i where s: "fst s" and i: "i < length sigs"
      and r: "\<forall>k \<in> {i..<length sigs}. fst (sigs ! k)"
      and c: "snd s - snd (sigs ! i) > DefaultRecordingThreshold"
      by auto
    have r': "\<forall>k \<in> {i..length sigs}. fst ((sigs @ [s]) ! k)"
      using r s by (auto simp add: nth_append)
    have c': "snd ((sigs @ [s]) ! length sigs) - snd ((sigs @ [s]) ! i)
        > DefaultRecordingThreshold"
      using c i by (simp add: nth_append)
    show ?L unfolding recording_expected_def using i r' c'
      by (intro bexI [where x = "length sigs"] bexI [where x = i]) auto
  qed
qed

lemma last_motion_is_snoc:
  assumes "last_motion_is sigs t"
  shows "last_motion_is (sigs @ [s]) (if fst s then snd s else t)"
  unfolding last_motion_is_def
proof (intro allI impI)
  fix m
  assume m: "m < length (sigs @ [s])"
    and h: "fst ((sigs @ [s]) ! m) \<and> (\<forall>l \<in> {m<..<length (sigs @ [s])}. \<not> fst ((sigs @ [s]) ! l))"
  show "(if fst s then snd s else t) = snd ((sigs @ [s]) ! m)"
  proof (cases "m = length sigs")
    case True
    with h show ?thesis by simp
  next
    case False
    with m have mn: "m < length sigs" by simp
    from h have "\<forall>l \<in> {m<..<length (sigs @ [s])}. \<not> fst ((sigs @ [s]) ! l)" ..
    then have "\<not> fst ((sigs @ [s]) ! length sigs)" by (rule bspec) (use mn in simp)
    then have ns: "\<not> fst s" by simp
    have "fst (sigs ! m) \<and> (\<forall>l \<in> {m<..<length sigs}. \<not> fst (sigs ! l))"
      using h mn by (auto simp add: nth_append split: if_splits)
    with assms mn have "t = snd (sigs ! m)" by (simp add: last_motion_is_def)
    with ns mn show ?thesis by (simp add: nth_append)
  qed
qed

lemma run_from_new:
  assumes "sigs = [] \<or> \<not> fst (last sigs)" and "fst s"
  shows "run_from (sigs @ [s]) (length sigs)"
  using assms by (cases "sigs = []") (auto simp add: run_from_def nth_append last_conv_nth)

lemma run_from_keep:
  assumes "run_from sigs i" and "fst s"
  shows "run_from (sigs @ [s]) i"
  using assms by (auto simp add: run_from_def nth_append)

lemma no_run:
  assumes "sigs = [] \<or> \<not> fst (last sigs)"
  shows "\<not> (\<exists>i < length sigs. \<forall>k \<in> {i..<length sigs}. fst (sigs ! k))"
proof
  assume "\<exists>i < length sigs. \<forall>k \<in> {i..<length sigs}. fst (sigs ! k)"
  then obtain i where i: "i < length sigs" and r: "\<forall>k \<in> {i..<length sigs}. fst (sigs ! k)"
    by blast
  then have "sigs \<noteq> []" by auto
  moreover from r have "fst (sigs ! (length sigs - 1))" by (rule bspec) (use i in auto)
  ultimately show False using assms by (simp add: last_conv_nth)
qed

lemma run_from_least:
  assumes "run_from sigs i" and "i' < length sigs" and "\<forall>k \<in> {i'..<length sigs}. fst (sigs ! k)"
  shows "i \<le> i'"
proof (rule ccontr)
  assume "\<not> i \<le> i'"
  then have "i' \<le> i - 1" "i - 1 < length sigs" "i \<noteq> 0" using assms(1)
    by (auto simp add: run_from_def)
  with assms(3) have "fst (sigs ! (i - 1))" by (intro bspec [where x = "i - 1"]) auto
  with assms(1) \<open>i \<noteq> 0\<close> show False by (simp add: run_from_def)
qed

lemma ex_last_motion:
  "\<exists>m < (n::nat). P m \<Longrightarrow> \<exists>m < n. P m \<and> (\<forall>l \<in> {m<..<n}. \<not> P l)"
proof (induction n)
  case 0
  then show ?case by simp
next
  case (Suc n)
  show ?case
  proof (cases "P n")
    case True
    then show ?thesis by (intro exI [where x = n]) auto
  next
    case False
    with Suc.prems have "\<exists>m < n. P m" by (metis less_Suc_eq)
    with Suc.IH obtain m where "m < n" "P m" "\<forall>l \<in> {m<..<n}. \<not> P l" by blast
    with False show ?thesis
      by (intro exI [where x = m]) (auto simp add: less_Suc_eq)
  qed
qed

lemma step_good:
  assumes "ok e" "\<not> Empty (frame e)" "sinkOpens e" "sinkWrites e"
  shows "fst (step L (Running p, w) e) =
     (case p of
        InWatching \<Rightarrow>
          if present e then Running (InMotionDetected (clock e)) else Running InWatching
      | InMotionDetected mb \<Rightarrow>
          if \<not> present e then Running InWatching
          else if clock e - mb > DefaultRecordingThreshold
            then Running (InRecording (clock e) (Format L FilenameLayout (clock e) @ ''.mp4''))
          else Running (InMotionDetected mb)
      | InRecording rb fn \<Rightarrow>
          if \<not> present e \<and> clock e - motionDetectedAt w > DefaultRecordingDropoff
          then Running InWatching else Running (InRecording rb fn))"
  using assms
  by (cases p)
     (simp_all add: step_Watching_status step_MotionDetected_status step_Recording_status
        del: step.simps)

lemma run_invariant:
  assumes "\<forall>e \<in> set es. ok e \<and> \<not> Empty (frame e) \<and> sinkOpens e \<and> sinkWrites e"
    and "sorted (map clock es)"
  shows "\<exists>p. fst (run L es) = Running p \<and>
     last_motion_is (map signal es) (motionDetectedAt (snd (run L es))) \<and>
     (case p of
        InWatching \<Rightarrow>
          \<not> recording_expected (map signal es) \<and> (es = [] \<or> \<not> present (last es))
      | InMotionDetected mb \<Rightarrow>
          \<not> recording_expected (map signal es) \<and>
          (\<exists>i. run_from (map signal es) i \<and> mb = clock (es ! i))
      | InRecording rb fn \<Rightarrow>
          recording_expected (map signal es) \<and> (\<exists>m < length es. present (es ! m)))"
  using assms
proof (induction es rule: rev_induct)
  case Nil
  show ?case
    by (simp add: run_def start_def last_motion_is_def recording_expected_def)
next
  case (snoc e es)
  let ?sigs = "map signal es"
  let ?s = "signal e"
  let ?n = "length es"
  from snoc.prems have good: "ok e" "\<not> Empty (frame e)" "sinkOpens e" "sinkWrites e"
    and prev: "\<forall>e \<in> set es. ok e \<and> \<not> Empty (frame e) \<and> sinkOpens e \<and> sinkWrites e"
    and srt: "sorted (map clock es)" and le: "\<forall>x \<in> set es. clock x \<le> clock e"
    by (auto simp add: sorted_append)
  obtain st w where c: "run L es = (st, w)" by (cases "run L es")
  from snoc.IH [OF prev srt] c obtain p where p: "st = Running p"
    and lm: "last_motion_is ?sigs (motionDetectedAt w)"
    and inv: "case p of
        InWatching \<Rightarrow> \<not> recording_expected ?sigs \<and> (es = [] \<or> \<not> present (last es))
      | InMotionDetected mb \<Rightarrow>
          \<not> recording_expected ?sigs \<and> (\<exists>i. run_from ?sigs i \<and> mb = clock (es ! i))
      | InRecording rb fn \<Rightarrow> recording_expected ?sigs \<and> (\<exists>m < length es. present (es ! m))"
    by auto
  have sig: "map signal (es @ [e]) = ?sigs @ [?s]" "fst ?s = present e" "snd ?s = clock e"
    "length ?sigs = ?n"
    by (simp_all add: signal_def)
  have nth: "\<And>k. k < ?n \<Longrightarrow> fst (?sigs ! k) = present (es ! k) \<and> snd (?sigs ! k) = clock (es ! k)"
    by (simp add: signal_def)
  have st': "fst (run L (es @ [e])) = fst (step L (Running p, w) e)"
    by (simp add: run_snoc c p del: step.simps)
  have "motionDetectedAt (snd (run L (es @ [e]))) =
      (if fst ?s then snd ?s else motionDetectedAt w)"
    using good by (simp add: run_snoc c p step_motionDetectedAt sig del: step.simps)
  with last_motion_is_snoc [OF lm, of ?s]
  have lm': "last_motion_is (map signal (es @ [e])) (motionDetectedAt (snd (run L (es @ [e]))))"
    by (simp only: sig)
  have last_F: "\<not> present e \<Longrightarrow> es @ [e] = [] \<or> \<not> present (last (es @ [e]))" by simp
  show ?case
  proof (cases p)
    case InWatching
    with inv have nre: "\<not> recording_expected ?sigs" and lastF: "es = [] \<or> \<not> present (last es)"
      by simp_all
    from lastF have "?sigs = [] \<or> \<not> fst (last ?sigs)"
      by (cases "es = []") (simp_all add: last_map signal_def)
    note nr = no_run [OF this] and rn = run_from_new [OF this]
    have nre': "\<not> recording_expected (map signal (es @ [e]))"
      using nre nr by (simp only: sig recording_expected_snoc) auto
    show ?thesis
    proof (cases "present e")
      case True
      then have "run_from (?sigs @ [?s]) ?n" using rn [of ?s] by (simp add: sig)
      then have "\<exists>i. run_from (map signal (es @ [e])) i \<and> clock e = clock ((es @ [e]) ! i)"
        by (intro exI [where x = ?n]) (simp add: sig)
      with True nre' lm' show ?thesis
        using step_good [OF good, of L p w] by (simp add: st' InWatching)
    next
      case False
      with nre' lm' show ?thesis
        using step_good [OF good, of L p w] by (simp add: st' InWatching)
    qed
  next
    case (InMotionDetected mb)
    with inv obtain i where nre: "\<not> recording_expected ?sigs"
      and rf: "run_from ?sigs i" and mb: "mb = clock (es ! i)"
      by auto
    from rf have i: "i < ?n" by (simp add: run_from_def)
    show ?thesis
    proof (cases "present e")
      case False
      have "\<not> recording_expected (map signal (es @ [e]))"
        using nre False by (simp only: sig recording_expected_snoc) simp
      with False lm' show ?thesis
        using step_good [OF good, of L p w] by (simp add: st' InMotionDetected)
    next
      case True
      show ?thesis
      proof (cases "clock e - mb > DefaultRecordingThreshold")
        case over: True
        have "\<exists>i < length ?sigs. (\<forall>k \<in> {i..<length ?sigs}. fst (?sigs ! k)) \<and>
            snd ?s - snd (?sigs ! i) > DefaultRecordingThreshold"
          using rf i over mb nth [OF i]
          by (intro exI [where x = i]) (simp add: run_from_def sig)
        then have "recording_expected (map signal (es @ [e]))"
          using True by (simp only: sig recording_expected_snoc) simp
        moreover have "\<exists>m < length (es @ [e]). present ((es @ [e]) ! m)"
          using True by (intro exI [where x = ?n]) simp
        ultimately show ?thesis using True over lm'
          using step_good [OF good, of L p w] by (simp add: st' InMotionDetected)
      next
        case under: False
        have "\<not> (\<exists>i' < length ?sigs. (\<forall>k \<in> {i'..<length ?sigs}. fst (?sigs ! k)) \<and>
            snd ?s - snd (?sigs ! i') > DefaultRecordingThreshold)"
        proof
          assume "\<exists>i' < length ?sigs. (\<forall>k \<in> {i'..<length ?sigs}. fst (?sigs ! k)) \<and>
            snd ?s - snd (?sigs ! i') > DefaultRecordingThreshold"
          then obtain i' where i': "i' < length ?sigs"
            and r: "\<forall>k \<in> {i'..<length ?sigs}. fst (?sigs ! k)"
            and o: "snd ?s - snd (?sigs ! i') > DefaultRecordingThreshold"
            by blast
          from run_from_least [OF rf i' r] have "i \<le> i'" .
          with srt i' have "clock (es ! i) \<le> clock (es ! i')"
            using sorted_nth_mono [of "map clock es" i i'] by simp
          with o i' have "clock e - mb > DefaultRecordingThreshold"
            by (simp add: sig mb signal_def)
          with under show False ..
        qed
        with nre have nre': "\<not> recording_expected (map signal (es @ [e]))"
          by (simp only: sig recording_expected_snoc) simp
        from run_from_keep [OF rf, of ?s] True have "run_from (map signal (es @ [e])) i"
          by (simp add: sig)
        with mb i have "\<exists>i. run_from (map signal (es @ [e])) i \<and> mb = clock ((es @ [e]) ! i)"
          by (intro exI [where x = i]) (simp add: nth_append)
        with nre' True under lm' show ?thesis
          using step_good [OF good, of L p w] by (simp add: st' InMotionDetected)
      qed
    qed
  next
    case (InRecording rb fn)
    with inv obtain m0 where re: "recording_expected ?sigs" and m0: "m0 < ?n" "present (es ! m0)"
      by auto
    then have "\<exists>m < length ?sigs. fst (?sigs ! m)" using nth [OF m0(1)] by auto
    from ex_last_motion [OF this] obtain m where m: "m < ?n" "fst (?sigs ! m)"
      "\<forall>l \<in> {m<..<length ?sigs}. \<not> fst (?sigs ! l)"
      by auto
    with lm have t: "motionDetectedAt w = snd (?sigs ! m)" by (simp add: last_motion_is_def)
    have uniq: "\<And>m'. m' < ?n \<Longrightarrow> fst (?sigs ! m') \<Longrightarrow>
        (\<forall>l \<in> {m'<..<length ?sigs}. \<not> fst (?sigs ! l)) \<Longrightarrow> snd (?sigs ! m') = motionDetectedAt w"
      using lm by (simp add: last_motion_is_def)
    have drop: "dropoff_at (?sigs @ [?s]) (length ?sigs) =
        (\<not> present e \<and> clock e - motionDetectedAt w > DefaultRecordingDropoff)"
    proof
      assume "dropoff_at (?sigs @ [?s]) (length ?sigs)"
      then obtain m' where "\<not> fst ?s" "m' < length ?sigs" "fst (?sigs ! m')"
        "\<forall>l \<in> {m'<..<length ?sigs}. \<not> fst (?sigs ! l)"
        "snd ?s - snd (?sigs ! m') > DefaultRecordingDropoff"
        unfolding dropoff_at_new by blast
      with uniq [of m'] show "\<not> present e \<and> clock e - motionDetectedAt w > DefaultRecordingDropoff"
        by (simp add: sig)
    next
      assume "\<not> present e \<and> clock e - motionDetectedAt w > DefaultRecordingDropoff"
      with m t show "dropoff_at (?sigs @ [?s]) (length ?sigs)"
        unfolding dropoff_at_new by (auto simp add: sig intro!: exI [where x = m])
    qed
    show ?thesis
    proof (cases "\<not> present e \<and> clock e - motionDetectedAt w > DefaultRecordingDropoff")
      case True
      then have "\<not> recording_expected (map signal (es @ [e]))"
        using drop by (simp only: sig recording_expected_snoc) simp
      with True lm' show ?thesis
        using step_good [OF good, of L p w] by (simp add: st' InRecording)
    next
      case False
      then have "recording_expected (map signal (es @ [e]))"
        using drop re by (simp only: sig recording_expected_snoc) simp
      moreover have "\<exists>m < length (es @ [e]). present ((es @ [e]) ! m)"
        using m0 by (intro exI [where x = m0]) (simp add: nth_append)
      ultimately show ?thesis using False lm'
        using step_good [OF good, of L p w] by (simp add: st' InRecording)
    qed
  qed
qed

text \<open>
  C1. On every sequence of cycles in which the reads succeed and the recording file
  can be opened and written, with a clock that does not go back, the machine started
  in \<open>Watching\<close> is in \<open>Recording\<close> after the sequence if and only if the motion signals
  of its frames (the empty frames give none) contain a run of signals with motion
  that lasted longer than \<open>DefaultRecordingThreshold\<close>, with no dropoff observed after
  it.
\<close>

theorem C1_recording_iff:
  assumes "\<forall>e \<in> set es. ok e \<and> sinkOpens e \<and> sinkWrites e"
    and "sorted (map clock es)"
  shows "(\<exists>recordingBegan filename.
            fst (run L es) = Running (InRecording recordingBegan filename)) \<longleftrightarrow>
         recording_expected (map signal (withoutEmpty es))"
proof -
  have g: "\<forall>e \<in> set (withoutEmpty es).
      ok e \<and> \<not> Empty (frame e) \<and> sinkOpens e \<and> sinkWrites e"
    using assms(1) by (auto simp add: withoutEmpty_def)
  have s: "sorted (map clock (withoutEmpty es))"
    using assms(2) unfolding withoutEmpty_def by (rule sorted_filter)
  from run_invariant [OF g s, of L] obtain p where
    p: "fst (run L (withoutEmpty es)) = Running p"
    and inv: "case p of
        InWatching \<Rightarrow> \<not> recording_expected (map signal (withoutEmpty es)) \<and>
          (withoutEmpty es = [] \<or> \<not> present (last (withoutEmpty es)))
      | InMotionDetected mb \<Rightarrow>
          \<not> recording_expected (map signal (withoutEmpty es)) \<and>
          (\<exists>i. run_from (map signal (withoutEmpty es)) i \<and> mb = clock (withoutEmpty es ! i))
      | InRecording rb fn \<Rightarrow>
          recording_expected (map signal (withoutEmpty es)) \<and>
          (\<exists>m < length (withoutEmpty es). present (withoutEmpty es ! m))"
    by blast
  have "fst (run L es) = Running p" using p run_withoutEmpty [of L es] by simp
  then show ?thesis using inv by (cases p) simp_all
qed

text \<open>
  Instances of C1: motion at 0s and 3s, no motion at 4s, motion at 5s: the machine
  records. Motion at 0s and 3s, no motion at 6s (a dropoff), motion at 7s: it does not.
\<close>

lemma run_gap_status:
  "fst (run lib0 [capture 3000 0, capture 3000 3, capture 0 4, capture 3000 5]) =
     Running (InRecording (3 * Second) ''2006-01-02-150405-MST.mp4'')"
  by (simp add: eval_run lib0_def del: step.simps)

lemma run_dropoff_status:
  "fst (run lib0 [capture 3000 0, capture 3000 3, capture 0 6, capture 3000 7]) =
     Running (InMotionDetected (7 * Second))"
  by (simp add: eval_run lib0_def del: step.simps)

theorem C1_witness:
  "sorted (map clock [capture 3000 0, capture 3000 3, capture 0 4, capture 3000 5]) \<and>
   fst (run lib0 [capture 3000 0, capture 3000 3, capture 0 4, capture 3000 5]) =
     Running (InRecording (3 * Second) ''2006-01-02-150405-MST.mp4'') \<and>
   recording_expected
     (map signal (withoutEmpty [capture 3000 0, capture 3000 3, capture 0 4, capture 3000 5])) \<and>
   sorted (map clock [capture 3000 0, capture 3000 3, capture 0 6, capture 3000 7]) \<and>
   fst (run lib0 [capture 3000 0, capture 3000 3, capture 0 6, capture 3000 7]) =
     Running (InMotionDetected (7 * Second)) \<and>
   \<not> recording_expected
     (map signal (withoutEmpty [capture 3000 0, capture 3000 3, capture 0 6, capture 3000 7]))"
proof -
  have g: "\<forall>e \<in> set [capture 3000 0, capture 3000 3, capture 0 4, capture 3000 5].
      ok e \<and> sinkOpens e \<and> sinkWrites e"
    by (simp add: capture_def)
  have s: "sorted (map clock [capture 3000 0, capture 3000 3, capture 0 4, capture 3000 5])"
    by (simp add: capture_def Second_def)
  have g': "\<forall>e \<in> set [capture 3000 0, capture 3000 3, capture 0 6, capture 3000 7].
      ok e \<and> sinkOpens e \<and> sinkWrites e"
    by (simp add: capture_def)
  have s': "sorted (map clock [capture 3000 0, capture 3000 3, capture 0 6, capture 3000 7])"
    by (simp add: capture_def Second_def)
  from C1_recording_iff [OF g s, of lib0] C1_recording_iff [OF g' s', of lib0]
    run_gap_status run_dropoff_status s s'
  show ?thesis by simp
qed

end
